theory Spec2Isabelle
  imports Main "HOL-Library.Sublist"
begin

section \<open>Python values\<close>

text \<open>
  A Python \<open>str\<close> is a sequence of Unicode code points, so it is modelled as a list of
  natural numbers (length, slicing and \<open>replace\<close> count code points, as Python does).
  \<open>ascii\<close> turns an ASCII literal into that representation; the non-ASCII literals of the
  source are written out as their code points.
\<close>

type_synonym ustr = "nat list"

definition ascii :: "string \<Rightarrow> ustr" where
  "ascii s = map of_char s"

text \<open>The exceptions that the modelled code can raise.\<close>

datatype exn = KeyError | ValueError | IndexError | TypeError | BackendError | ResponseError

text \<open>
  \<open>s.replace(old, new)\<close>: every non-overlapping occurrence of \<open>old\<close>, scanning from the
  left, is replaced by \<open>new\<close>; for an empty \<open>old\<close> Python puts \<open>new\<close> around every
  character.
\<close>

function replace :: "ustr \<Rightarrow> ustr \<Rightarrow> ustr \<Rightarrow> ustr" where
  "replace s old new =
     (if old = [] then new @ concat (map (\<lambda>c. c # new) s)
      else if s = [] then []
      else if prefix old s then new @ replace (drop (length old) s) old new
      else hd s # replace (tl s) old new)"
  by pat_completeness auto
termination
  by (relation "measure (\<lambda>(s, old, new). length s)") auto

declare replace.simps [simp del]

text \<open>\<open>sep.join(xs)\<close>.\<close>

fun join :: "ustr \<Rightarrow> ustr list \<Rightarrow> ustr" where
  "join sep [] = []"
| "join sep [x] = x"
| "join sep (x # y # ys) = x @ sep @ join sep (y # ys)"

text \<open>\<open>s.startswith(p)\<close>.\<close>

definition startswith :: "ustr \<Rightarrow> ustr \<Rightarrow> bool" where
  "startswith s p = prefix p s"

text \<open>
  \<open>str.isspace\<close> on one code point, and \<open>s.strip()\<close>, which removes the white space at
  both ends.
\<close>

definition isspace :: "nat \<Rightarrow> bool" where
  "isspace c \<longleftrightarrow>
     (9 \<le> c \<and> c \<le> 13) \<or> (28 \<le> c \<and> c \<le> 32) \<or> c = 133 \<or> c = 160 \<or> c = 5760 \<or>
     (8192 \<le> c \<and> c \<le> 8202) \<or> c = 8232 \<or> c = 8233 \<or> c = 8239 \<or> c = 8287 \<or> c = 12288"

definition strip :: "ustr \<Rightarrow> ustr" where
  "strip s = rev (dropWhile isspace (rev (dropWhile isspace s)))"

text \<open>\<open>str(n)\<close> for an \<open>int\<close>: the decimal digits, with a minus sign for a negative number.\<close>

fun str_nat :: "nat \<Rightarrow> ustr" where
  "str_nat n = (if n < 10 then [48 + n] else str_nat (n div 10) @ [48 + n mod 10])"

declare str_nat.simps [simp del]

definition str_int :: "int \<Rightarrow> ustr" where
  "str_int i = (if i < 0 then 45 # str_nat (nat (- i)) else str_nat (nat i))"

text \<open>
  \<open>repr\<close> of a \<open>str\<close> and of a list of \<open>str\<close>. The quoting is the one Python uses for a
  string of printable characters without quotes or backslashes, which is all that the source
  prints this way (\<open>VALID_MODES\<close>).
\<close>

definition repr_str :: "ustr \<Rightarrow> ustr" where
  "repr_str s = [39] @ s @ [39]"

definition repr_list :: "ustr list \<Rightarrow> ustr" where
  "repr_list xs = [91] @ join (ascii '', '') (map repr_str xs) @ [93]"

text \<open>
  \<open>s.format(**kwargs)\<close>. The format string is scanned from the left: \<open>{{\<close> and \<open>}}\<close> are
  escaped braces, \<open>{name}\<close> is replaced by the keyword argument \<open>name\<close> (a \<open>KeyError\<close> when
  there is none), a brace that is not closed or not opened is a \<open>ValueError\<close>. A field is
  looked up by its whole text: conversions, format specifications, attribute and index
  access inside a field are not interpreted. The format strings of this program have only
  plain fields (the lemma \<open>rendering\<close> below shows that \<open>format\<close>
  never fails on them).
\<close>

function format :: "ustr \<Rightarrow> (ustr \<times> ustr) list \<Rightarrow> exn + ustr" where
  "format s kwargs =
     (case s of
        [] \<Rightarrow> Inr []
      | c # cs \<Rightarrow>
          if c = 123 then
            (case cs of
               [] \<Rightarrow> Inl ValueError
             | d # ds \<Rightarrow>
                 if d = 123 then map_sum id ((#) 123) (format ds kwargs)
                 else
                   (let field = takeWhile (\<lambda>x. x \<noteq> 125) cs;
                        rest = dropWhile (\<lambda>x. x \<noteq> 125) cs
                    in if rest = [] then Inl ValueError
                       else (case map_of kwargs field of
                               None \<Rightarrow> Inl KeyError
                             | Some v \<Rightarrow> map_sum id ((@) v) (format (tl rest) kwargs))))
          else if c = 125 then
            (case cs of
               [] \<Rightarrow> Inl ValueError
             | d # ds \<Rightarrow>
                 if d = 125 then map_sum id ((#) 125) (format ds kwargs)
                 else Inl ValueError)
          else map_sum id ((#) c) (format cs kwargs))"
  by pat_completeness auto
termination
proof (relation "measure (\<lambda>(s, kwargs). length s)")
  show "wf (measure (\<lambda>(s, kwargs). length s))"
    by simp
next
  fix s :: ustr and kwargs :: "(ustr \<times> ustr) list" and c cs d ds field rest v
  assume "s = c # cs" and "rest = dropWhile (\<lambda>x. x \<noteq> 125) cs"
  then have "length rest \<le> length cs"
    by (simp add: length_dropWhile_le)
  then have "length (tl rest) \<le> length cs"
    by simp
  with \<open>s = c # cs\<close>
  show "((tl rest, kwargs), (s, kwargs)) \<in> measure (\<lambda>(s, kwargs). length s)"
    by simp
qed auto

declare format.simps [simp del]

text \<open>List slices \<open>xs[-n:]\<close> and \<open>xs[:n]\<close> for a positive \<open>n\<close>.\<close>

definition slice_last :: "nat \<Rightarrow> 'a list \<Rightarrow> 'a list" where
  "slice_last n xs = drop (length xs - n) xs"

definition slice_first :: "nat \<Rightarrow> 'a list \<Rightarrow> 'a list" where
  "slice_first n xs = take n xs"


section \<open>prompt_templates.py\<close>

text \<open>
  \<open>sanitize_input\<close> removes \<open>{\<close> (123), then \<open>}\<close> (125), then every run of three
  backticks (96).
\<close>

definition sanitize_input :: "ustr \<Rightarrow> ustr" where
  "sanitize_input user_input =
     replace (replace (replace user_input [123] []) [125] []) [96, 96, 96] []"

text \<open>The \<open>templates\<close> dictionary, in the order of the source.\<close>

definition templates :: "(ustr \<times> ustr) list" where
  "templates =
    [(ascii ''recommendation'',
        [20320, 26159, 19968, 20491, 23560, 26989, 30340, 25512, 34214, 31995, 32113, 12290,
         21443, 32771, 27511, 21490, 23565, 35441, 58, 32]
        @ ascii ''{history_context}''
        @ [12290, 26681, 25818, 20197, 19979, 29992, 25142, 20559, 22909, 65306, 39]
        @ ascii ''{user_input}''
        @ [39, 65292, 35531, 25552, 20379, 19968, 20491, 35443, 32048, 19988, 20855, 21560,
           24341, 21147, 30340, 29986, 21697, 25512, 34214, 12290]),
     (ascii ''support'',
        [20320, 26159, 19968, 20491, 23560, 26989, 30340, 23458, 26381, 27231, 22120, 20154,
         12290, 21443, 32771, 27511, 21490, 23565, 35441, 58, 32]
        @ ascii ''{history_context}''
        @ [12290, 20351, 29992, 32773, 25552, 21839, 65306, 39]
        @ ascii ''{user_input}''
        @ [39, 65292, 35531, 25552, 20379, 19968, 20491, 28165, 26224, 12289, 23560, 26989,
           19988, 21451, 21892, 30340, 22238, 25033, 12290]),
     (ascii ''ecommerce'',
        [20320, 26159, 19968, 20301, 26377, 21109, 24847, 30340, 38651, 21830, 25991, 26696,
         23531, 25163, 12290, 21443, 32771, 27511, 21490, 23565, 35441, 58, 32]
        @ ascii ''{history_context}''
        @ [12290, 26681, 25818, 20197, 19979, 36664, 20837, 65306, 39]
        @ ascii ''{user_input}''
        @ [39, 65292, 29983, 25104, 19968, 27573, 24341, 20154, 27880, 30446, 30340, 29986,
           21697, 25551, 36848, 25110, 20419, 37559, 25991, 26696, 12290]),
     (ascii ''general'',
        ascii ''{history_context}'' @ [32] @ ascii ''{user_input}'')]"

text \<open>
  \<open>get_prompt_template(mode)\<close> returns a function of \<open>user_input\<close>; here both arguments are
  taken at once. \<open>templates['general']\<close> is evaluated first, as the default of \<open>dict.get\<close>.
  The first \<open>format\<close> leaves the text \<open>{history_context}\<close> in place for the caller.
\<close>

definition get_prompt_template :: "ustr \<Rightarrow> ustr \<Rightarrow> exn + ustr" where
  "get_prompt_template mode user_input =
     (case map_of templates (ascii ''general'') of
        None \<Rightarrow> Inl KeyError
      | Some general \<Rightarrow>
          (let template = (case map_of templates mode of Some t \<Rightarrow> t | None \<Rightarrow> general)
           in format template
                [(ascii ''history_context'', ascii ''{history_context}''),
                 (ascii ''user_input'', sanitize_input user_input)]))"


section \<open>ai_core.py\<close>

text \<open>
  The expression of \<open>generate_response\<close> that builds one full prompt:
  \<open>get_prompt_template(mode)(p).format(history_context=history_context)\<close>.
\<close>

definition full_prompt :: "ustr \<Rightarrow> ustr \<Rightarrow> ustr \<Rightarrow> exn + ustr" where
  "full_prompt mode p history_context =
     (case get_prompt_template mode p of
        Inl e \<Rightarrow> Inl e
      | Inr t \<Rightarrow> format t [(ascii ''history_context'', history_context)])"


text \<open>
  A prompt argument is a \<open>str\<close> or a list of \<open>str\<close>; the function returns a \<open>str\<close> for
  the first and a list for the second.
\<close>

datatype prompt_arg = PStr ustr | PList "ustr list"

datatype gen_value = VStr ustr | VList "ustr list"

text \<open>
  The text-generation pipeline is outside the program. \<open>generator\<close> is \<open>None\<close> when the
  model could not be loaded. A loaded pipeline is a function of the number of calls made
  before (so that it need not answer the same prompts twice in the same way), the full
  prompts and \<open>max_length\<close>; it raises, or returns the \<open>generated_text\<close> of
  \<open>result[i][0]\<close> for each \<open>i\<close>.
\<close>

type_synonym pipeline = "nat \<Rightarrow> ustr list \<Rightarrow> int \<Rightarrow> exn + ustr list"

text \<open>The two literal messages of \<open>generate_response\<close>.\<close>

definition MODEL_UNAVAILABLE :: ustr where
  "MODEL_UNAVAILABLE =
     [37679, 35492, 58, 32, 65, 73, 32, 27169, 22411, 19981, 21487, 29992, 12290]"

definition GENERATION_ERROR :: ustr where
  "GENERATION_ERROR =
     [25265, 27465, 65292, 29983, 25104, 22238, 25033, 26178, 30332, 29983, 37679, 35492,
      12290]"

text \<open>The list comprehension that builds \<open>full_prompts\<close>.\<close>

fun full_prompts_of :: "ustr \<Rightarrow> ustr \<Rightarrow> ustr list \<Rightarrow> exn + ustr list" where
  "full_prompts_of mode history_context [] = Inr []"
| "full_prompts_of mode history_context (p # prompts) =
     (case full_prompt mode p history_context of
        Inl e \<Rightarrow> Inl e
      | Inr f \<Rightarrow> map_sum id ((#) f) (full_prompts_of mode history_context prompts))"

text \<open>
  The loop \<open>for i, res in enumerate(result)\<close>: the prompt is cut off the front of the
  generated text when the text starts with it. \<open>full_prompts[i]\<close> raises \<open>IndexError\<close>
  when the pipeline returned more results than prompts.
\<close>

fun clean_outputs :: "ustr list \<Rightarrow> nat \<Rightarrow> ustr list \<Rightarrow> exn + ustr list" where
  "clean_outputs full_prompts i [] = Inr []"
| "clean_outputs full_prompts i (generated_text # result) =
     (if i < length full_prompts then
        (let response =
               (if \<not> startswith generated_text (full_prompts ! i) then generated_text
                else strip (drop (length (full_prompts ! i)) generated_text))
         in map_sum id ((#) response) (clean_outputs full_prompts (i + 1) result))
      else Inl IndexError)"

text \<open>
  The body of \<open>generate_response\<close>, without its decorator. The last argument counts the
  calls of the pipeline so far, and the new count is returned with the value. Every
  exception of the \<open>try\<close> block ends in the second literal message.
\<close>

definition generate_response_body ::
  "pipeline option \<Rightarrow> prompt_arg \<Rightarrow> ustr list \<Rightarrow> int \<Rightarrow> ustr \<Rightarrow> nat \<Rightarrow> gen_value \<times> nat" where
  "generate_response_body generator prompt history max_length mode calls =
     (case generator of
        None \<Rightarrow>
          ((case prompt of
              PStr _ \<Rightarrow> VStr MODEL_UNAVAILABLE
            | PList ps \<Rightarrow> VList (replicate (length ps) MODEL_UNAVAILABLE)), calls)
      | Some g \<Rightarrow>
          (let failed = (case prompt of
                           PStr _ \<Rightarrow> VStr GENERATION_ERROR
                         | PList ps \<Rightarrow> VList (replicate (length ps) GENERATION_ERROR));
               prompts = (case prompt of PStr p \<Rightarrow> [p] | PList ps \<Rightarrow> ps);
               history_context = join [32] history
           in case full_prompts_of mode history_context prompts of
                Inl e \<Rightarrow> (failed, calls)
              | Inr full_prompts \<Rightarrow>
                  (case g calls full_prompts max_length of
                     Inl e \<Rightarrow> (failed, calls + 1)
                   | Inr result \<Rightarrow>
                       (case clean_outputs full_prompts 0 result of
                          Inl e \<Rightarrow> (failed, calls + 1)
                        | Inr outputs \<Rightarrow>
                            (case prompt of
                               PStr _ \<Rightarrow>
                                 (case outputs of
                                    [] \<Rightarrow> (failed, calls + 1)
                                  | out # _ \<Rightarrow> (VStr out, calls + 1))
                             | PList _ \<Rightarrow> (VList outputs, calls + 1))))))"

text \<open>
  \<open>functools.lru_cache\<close>. The cache is a list of entries, the most recently used first.
  A key is the tuple of the arguments; a key can only exist for a hashable argument
  tuple, so its prompt is a \<open>str\<close>. A hit moves the entry to the front; a miss on a full
  cache drops the entry used longest ago.
\<close>

type_synonym call_key = "ustr \<times> ustr list \<times> int \<times> ustr"

type_synonym lru = "(call_key \<times> gen_value) list"

definition lru_touch :: "call_key \<Rightarrow> lru \<Rightarrow> lru" where
  "lru_touch k c =
     (case map_of c k of None \<Rightarrow> c | Some v \<Rightarrow> (k, v) # filter (\<lambda>e. fst e \<noteq> k) c)"

definition lru_put :: "nat \<Rightarrow> call_key \<Rightarrow> gen_value \<Rightarrow> lru \<Rightarrow> lru" where
  "lru_put maxsize k v c = (k, v) # (if maxsize \<le> length c then butlast c else c)"


section \<open>The state of the process and of the shared store\<close>

text \<open>
  The values that the program writes to Redis are the JSON texts of a history (a list of
  strings) and of a response (an object with \<open>input\<close>, \<open>output\<close> and \<open>history\<close>); a decoded
  value of the store is one of the two. Expiry of the entries written with \<open>setex\<close> is not
  modelled: a state is a moment between two expiries.
\<close>

record response_data =
  r_input :: ustr
  r_output :: gen_value
  r_history :: "ustr list"

datatype json = JList "ustr list" | JDict response_data

datatype redis_cmd = GET ustr | SET ustr json | SETEX ustr int json

text \<open>
  \<open>redis_client\<close> is \<open>None\<close> when the connection failed at start-up, and otherwise the
  content of the store. \<open>redis_log\<close> lists the commands sent to the store, the latest last.
  \<open>app_cache\<close> and \<open>core_cache\<close> are the caches of the decorators of
  \<open>generate_response_with_cache\<close> and of \<open>generate_response\<close>; \<open>calls\<close> counts the calls of
  the pipeline.
\<close>

record world =
  redis_client :: "(ustr \<rightharpoonup> json) option"
  redis_log :: "redis_cmd list"
  app_cache :: lru
  core_cache :: lru
  calls :: nat

text \<open>What the process reads from its environment and loads at start-up.\<close>

record env =
  API_KEY :: ustr
  CACHE_TTL_SECONDS :: int
  ai_core_generator :: "pipeline option"

text \<open>
  \<open>generate_response\<close> with its decorator \<open>lru_cache(maxsize=128)\<close>: the decorator hashes
  the arguments before anything else, and a list cannot be hashed.
\<close>

definition generate_response ::
  "pipeline option \<Rightarrow> prompt_arg \<Rightarrow> ustr list \<Rightarrow> int \<Rightarrow> ustr \<Rightarrow> world
     \<Rightarrow> (exn + gen_value) \<times> world" where
  "generate_response generator prompt history max_length mode w =
     (case prompt of
        PList _ \<Rightarrow> (Inl TypeError, w)
      | PStr p \<Rightarrow>
          (let key = (p, history, max_length, mode)
           in case map_of (core_cache w) key of
                Some v \<Rightarrow> (Inr v, w\<lparr>core_cache := lru_touch key (core_cache w)\<rparr>)
              | None \<Rightarrow>
                  (case generate_response_body generator prompt history max_length mode
                          (calls w) of
                     (v, n) \<Rightarrow>
                       (Inr v, w\<lparr>core_cache := lru_put 128 key v (core_cache w),
                                 calls := n\<rparr>))))"


section \<open>app.py\<close>

definition VALID_MODES :: "ustr list" where
  "VALID_MODES =
     [ascii ''general'', ascii ''recommendation'', ascii ''support'', ascii ''ecommerce'']"

definition validate_api_key :: "env \<Rightarrow> ustr option \<Rightarrow> bool" where
  "validate_api_key e api_key \<longleftrightarrow> api_key = Some (API_KEY e)"

text \<open>\<open>generate_response_with_cache\<close>, with its decorator \<open>lru_cache(maxsize=100)\<close>.\<close>

definition generate_response_with_cache ::
  "pipeline option \<Rightarrow> prompt_arg \<Rightarrow> ustr list \<Rightarrow> int \<Rightarrow> ustr \<Rightarrow> world
     \<Rightarrow> (exn + gen_value) \<times> world" where
  "generate_response_with_cache generator prompt history max_length mode w =
     (case prompt of
        PList _ \<Rightarrow> (Inl TypeError, w)
      | PStr p \<Rightarrow>
          (let key = (p, history, max_length, mode)
           in case map_of (app_cache w) key of
                Some v \<Rightarrow> (Inr v, w\<lparr>app_cache := lru_touch key (app_cache w)\<rparr>)
              | None \<Rightarrow>
                  (case generate_response generator prompt history max_length mode w of
                     (Inl e, w') \<Rightarrow> (Inl e, w')
                   | (Inr v, w') \<Rightarrow>
                       (Inr v, w'\<lparr>app_cache := lru_put 100 key v (app_cache w')\<rparr>))))"

definition get_redis_key :: "ustr \<Rightarrow> ustr \<Rightarrow> int \<Rightarrow> ustr" where
  "get_redis_key prompt mode max_length =
     ascii ''cache:'' @ prompt @ ascii '':'' @ mode @ ascii '':'' @ str_int max_length"

text \<open>
  \<open>get_response_from_cache\<close>: the stored bytes of a JSON text are never empty, so a key
  that is present is decoded and returned.
\<close>

definition get_response_from_cache ::
  "ustr \<Rightarrow> ustr \<Rightarrow> int \<Rightarrow> world \<Rightarrow> json option \<times> world" where
  "get_response_from_cache prompt mode max_length w =
     (case redis_client w of
        None \<Rightarrow> (None, w)
      | Some store \<Rightarrow>
          (let key = get_redis_key prompt mode max_length
           in (store key, w\<lparr>redis_log := redis_log w @ [GET key]\<rparr>)))"

text \<open>
  \<open>set_response_to_cache\<close>. Redis refuses \<open>SETEX\<close> with a time-to-live that is not
  positive: the client raises \<open>ResponseError\<close> and nothing is stored. The function returns
  the exception, if any, with the new state.
\<close>

definition set_response_to_cache ::
  "env \<Rightarrow> ustr \<Rightarrow> ustr \<Rightarrow> int \<Rightarrow> response_data \<Rightarrow> world \<Rightarrow> exn option \<times> world" where
  "set_response_to_cache e prompt mode max_length response w =
     (case redis_client w of
        None \<Rightarrow> (None, w)
      | Some store \<Rightarrow>
          (let key = get_redis_key prompt mode max_length;
               w' = w\<lparr>redis_log :=
                        redis_log w @ [SETEX key (CACHE_TTL_SECONDS e) (JDict response)]\<rparr>
           in if CACHE_TTL_SECONDS e \<le> 0 then (Some ResponseError, w')
              else (None, w'\<lparr>redis_client := Some (store(key \<mapsto> JDict response))\<rparr>)))"

text \<open>Python's truth value of a decoded JSON value and of an optional \<open>str\<close>.\<close>

fun truthy :: "json option \<Rightarrow> bool" where
  "truthy None = False"
| "truthy (Some (JList xs)) = (xs \<noteq> [])"
| "truthy (Some (JDict d)) = True"

definition truthy_str :: "ustr option \<Rightarrow> bool" where
  "truthy_str s \<longleftrightarrow> s \<noteq> None \<and> s \<noteq> Some []"

text \<open>
  The block that reads the history (the same in both handlers). Slicing a decoded object
  raises an exception that the inner \<open>except\<close> clause does not catch.
\<close>

definition load_history :: "ustr option \<Rightarrow> world \<Rightarrow> (exn + ustr list) \<times> world" where
  "load_history user_id w =
     (case redis_client w of
        None \<Rightarrow> (Inr [], w)
      | Some store \<Rightarrow>
          if truthy_str user_id then
            (let w' = w\<lparr>redis_log := redis_log w @ [GET (the user_id)]\<rparr>
             in case store (the user_id) of
                  None \<Rightarrow> (Inr [], w')
                | Some (JList h) \<Rightarrow> (Inr (slice_last 6 h), w')
                | Some (JDict d) \<Rightarrow> (Inl TypeError, w'))
          else (Inr [], w))"

text \<open>\<open>redis_client.set(user_id, json.dumps(new_history[:6]))\<close>, guarded as in the source.\<close>

definition save_history :: "ustr option \<Rightarrow> ustr list \<Rightarrow> world \<Rightarrow> world" where
  "save_history user_id new_history w =
     (case redis_client w of
        None \<Rightarrow> w
      | Some store \<Rightarrow>
          if truthy_str user_id then
            w\<lparr>redis_client := Some (store(the user_id \<mapsto> JList (slice_first 6 new_history))),
              redis_log := redis_log w @ [SET (the user_id) (JList (slice_first 6 new_history))]\<rparr>
          else w)"

text \<open>\<open>str(output)\<close>, as the f-string \<open>f"AI: {output}"\<close> takes it.\<close>

fun py_str :: "gen_value \<Rightarrow> ustr" where
  "py_str (VStr s) = s"
| "py_str (VList xs) = repr_list xs"

text \<open>The response bodies and the literal messages of the handlers.\<close>

record batch_data =
  b_inputs :: "ustr list"
  b_outputs :: "gen_value list"
  b_history :: "ustr list"

datatype response =
    Generated response_data
  | BatchGenerated batch_data
  | Error nat ustr

definition INVALID_API_KEY :: ustr where
  "INVALID_API_KEY = [28961, 25928, 30340, 32, 65, 80, 73, 32, 75, 101, 121, 12290]"

definition INVALID_MODE :: ustr where
  "INVALID_MODE =
     ascii ''mode '' @ [24517, 38920, 26159, 32] @ repr_list VALID_MODES
       @ [32, 20043, 19968, 12290]"

definition INTERNAL_ERROR :: ustr where
  "INTERNAL_ERROR = [30332, 29983, 20839, 37096, 20282, 26381, 22120, 37679, 35492, 12290]"

definition BATCH_INTERNAL_ERROR :: ustr where
  "BATCH_INTERNAL_ERROR =
     [25209, 27425, 29983, 25104, 26178, 30332, 29983, 20839, 37096, 20282, 26381, 22120,
      37679, 35492, 12290]"

text \<open>
  The request bodies, after validation by the decorator: \<open>prompt\<close> has 1 to 500
  characters and \<open>max_length\<close> is an \<open>int\<close> from 10 to 500.
\<close>

record request =
  user_id :: "ustr option"
  max_length :: int
  mode :: ustr

record GenerateRequest = request +
  prompt :: ustr

record BatchGenerateRequest = request +
  prompts :: "ustr list"

text \<open>
  \<open>generate_text\<close>. The second argument is the header \<open>X-API-Key\<close>. An exception anywhere
  in the \<open>try\<close> block gives the response 500; what was written before it stays written.
\<close>

definition generate_text ::
  "env \<Rightarrow> ustr option \<Rightarrow> GenerateRequest \<Rightarrow> world \<Rightarrow> response \<times> world" where
  "generate_text e api_key body w =
     (if \<not> validate_api_key e api_key then (Error 401 INVALID_API_KEY, w)
      else if mode body \<notin> set VALID_MODES then (Error 400 INVALID_MODE, w)
      else
        (case get_response_from_cache (prompt body) (mode body) (max_length body) w of
           (cached_response, w1) \<Rightarrow>
             if truthy cached_response then
               (case cached_response of
                  Some (JDict d) \<Rightarrow>
                    (Generated \<lparr>r_input = prompt body, r_output = r_output d,
                                r_history = r_history d\<rparr>, w1)
                | _ \<Rightarrow> (Error 500 INTERNAL_ERROR, w1))
             else
               (case load_history (user_id body) w1 of
                  (Inl ex, w2) \<Rightarrow> (Error 500 INTERNAL_ERROR, w2)
                | (Inr history, w2) \<Rightarrow>
                    (case generate_response_with_cache (ai_core_generator e)
                            (PStr (prompt body)) history (max_length body) (mode body) w2 of
                       (Inl ex, w3) \<Rightarrow> (Error 500 INTERNAL_ERROR, w3)
                     | (Inr output, w3) \<Rightarrow>
                         (let new_history =
                                history @ [ascii ''User: '' @ prompt body,
                                           ascii ''AI: '' @ py_str output];
                              w4 = save_history (user_id body) new_history w3;
                              new_history =
                                (if truthy_str (user_id body) \<and> redis_client w3 \<noteq> None
                                 then new_history else []);
                              response_data =
                                \<lparr>r_input = prompt body, r_output = output,
                                 r_history = new_history\<rparr>
                          in case set_response_to_cache e (prompt body) (mode body)
                                    (max_length body) response_data w4 of
                               (Some ex, w5) \<Rightarrow> (Error 500 INTERNAL_ERROR, w5)
                             | (None, w5) \<Rightarrow> (Generated response_data, w5))))))"

text \<open>The loop of \<open>generate_batch_text\<close> over \<open>batch_prompts\<close>; it returns \<open>outputs\<close>.\<close>

fun batch_loop ::
  "env \<Rightarrow> ustr list \<Rightarrow> ustr list \<Rightarrow> int \<Rightarrow> ustr \<Rightarrow> world \<Rightarrow> (exn + gen_value list) \<times> world" where
  "batch_loop e [] history ml m w = (Inr [], w)"
| "batch_loop e (p # batch_prompts) history ml m w =
     (case get_response_from_cache p m ml w of
        (cached_response, w1) \<Rightarrow>
          if truthy cached_response then
            (case cached_response of
               Some (JDict d) \<Rightarrow>
                 (case batch_loop e batch_prompts history ml m w1 of
                    (Inl ex, w') \<Rightarrow> (Inl ex, w')
                  | (Inr outputs, w') \<Rightarrow> (Inr (r_output d # outputs), w'))
             | _ \<Rightarrow> (Inl TypeError, w1))
          else
            (case generate_response_with_cache (ai_core_generator e) (PStr p) history ml m w1 of
               (Inl ex, w2) \<Rightarrow> (Inl ex, w2)
             | (Inr output, w2) \<Rightarrow>
                 (let response_data = \<lparr>r_input = p, r_output = output, r_history = history\<rparr>
                  in case set_response_to_cache e p m ml response_data w2 of
                       (Some ex, w3) \<Rightarrow> (Inl ex, w3)
                     | (None, w3) \<Rightarrow>
                         (case batch_loop e batch_prompts history ml m w3 of
                            (Inl ex, w') \<Rightarrow> (Inl ex, w')
                          | (Inr outputs, w') \<Rightarrow> (Inr (output # outputs), w')))))"

definition generate_batch_text ::
  "env \<Rightarrow> ustr option \<Rightarrow> BatchGenerateRequest \<Rightarrow> world \<Rightarrow> response \<times> world" where
  "generate_batch_text e api_key body w =
     (if \<not> validate_api_key e api_key then (Error 401 INVALID_API_KEY, w)
      else if mode body \<notin> set VALID_MODES then (Error 400 INVALID_MODE, w)
      else
        (case load_history (user_id body) w of
           (Inl ex, w1) \<Rightarrow> (Error 500 BATCH_INTERNAL_ERROR, w1)
         | (Inr history, w1) \<Rightarrow>
             (case batch_loop e (prompts body) history (max_length body) (mode body) w1 of
                (Inl ex, w2) \<Rightarrow> (Error 500 BATCH_INTERNAL_ERROR, w2)
              | (Inr outputs, w2) \<Rightarrow>
                  (let new_history =
                         history @ map (\<lambda>p. ascii ''User: '' @ p) (prompts body)
                           @ map (\<lambda>out. ascii ''AI: '' @ py_str out) outputs;
                       w3 = save_history (user_id body) new_history w2
                   in (BatchGenerated \<lparr>b_inputs = prompts body, b_outputs = outputs,
                                        b_history = slice_first 6 new_history\<rparr>, w3)))))"


section \<open>Notions used in the statements and proofs\<close>

text \<open>A string without braces.\<close>

definition nobrace :: "ustr \<Rightarrow> bool" where
  "nobrace s \<longleftrightarrow> 123 \<notin> set s \<and> 125 \<notin> set s"

text \<open>
  The number that a string of decimal digits denotes, and the integer that a decimal text
  with an optional minus sign denotes; they read back what \<open>str_int\<close> prints.
\<close>

fun digits_value :: "ustr \<Rightarrow> nat" where
  "digits_value ds = foldl (\<lambda>acc d. 10 * acc + (d - 48)) 0 ds"

definition text_value :: "ustr \<Rightarrow> int" where
  "text_value s = (if prefix [45] s then - int (digits_value (tl s)) else int (digits_value s))"


text \<open>What the shared store holds under a key.\<close>

definition stored :: "world \<Rightarrow> ustr \<Rightarrow> json option" where
  "stored w key = (case redis_client w of None \<Rightarrow> None | Some store \<Rightarrow> store key)"



text \<open>
  A concrete setting for the examples: the model failed to load, the store holds one
  cached response and the histories of two users, nothing is memoised yet.
\<close>

definition test_env :: env where
  "test_env = \<lparr>API_KEY = ascii ''my-secure-api-key'', CACHE_TTL_SECONDS = 600,
               ai_core_generator = None\<rparr>"

definition six_turns :: "ustr list" where
  "six_turns = [ascii ''User: a'', ascii ''AI: b'', ascii ''User: c'', ascii ''AI: d'',
                ascii ''User: e'', ascii ''AI: f'']"

definition test_store :: "ustr \<rightharpoonup> json" where
  "test_store =
     [ascii ''cache:Test:general:100'' \<mapsto>
        JDict \<lparr>r_input = ascii ''Test'', r_output = VStr (ascii ''Cached response.''),
               r_history = []\<rparr>,
      ascii ''user-001'' \<mapsto> JList six_turns,
      ascii ''user-002'' \<mapsto> JList (take 4 six_turns)]"

definition test_world :: world where
  "test_world = \<lparr>redis_client = Some test_store, redis_log = [], app_cache = [],
                 core_cache = [], calls = 0\<rparr>"


section \<open>Rendering of prompts\<close>

lemma format_Nil: "format [] kw = Inr []"
  by (simp add: format.simps)

lemma format_lit_Cons:
  "c \<noteq> 123 \<Longrightarrow> c \<noteq> 125 \<Longrightarrow> format (c # s) kw = map_sum id ((#) c) (format s kw)"
  by (subst format.simps) simp

lemma format_lit:
  "nobrace xs \<Longrightarrow> format (xs @ s) kw = map_sum id ((@) xs) (format s kw)"
proof (induction xs)
  case Nil
  show ?case by (cases "format s kw") simp_all
next
  case (Cons c xs)
  then have "c \<noteq> 123" "c \<noteq> 125" "nobrace xs"
    by (auto simp: nobrace_def)
  then show ?case
    using Cons.IH by (cases "format (xs @ s) kw"; cases "format s kw") (simp_all add: format_lit_Cons)
qed

lemma format_field:
  assumes "nobrace name" "name \<noteq> []" "map_of kw name = Some v"
  shows "format ([123] @ name @ [125] @ s) kw = map_sum id ((@) v) (format s kw)"
proof -
  obtain d ds where name: "name = d # ds"
    using assms(2) by (cases name) auto
  have d: "d \<noteq> 123" "d \<noteq> 125" and ds: "125 \<notin> set ds"
    using assms(1) by (auto simp: nobrace_def name)
  have tw: "takeWhile (\<lambda>x. x \<noteq> 125) (ds @ 125 # s) = ds"
    using ds by (induction ds) auto
  have dw: "dropWhile (\<lambda>x. x \<noteq> 125) (ds @ 125 # s) = 125 # s"
    using ds by (induction ds) auto
  show ?thesis
    using assms(3) d by (subst format.simps) (simp add: name tw dw)
qed

lemma format_template:
  assumes "nobrace a" "nobrace b" "nobrace c" "nobrace n1" "nobrace n2" "n1 \<noteq> []" "n2 \<noteq> []"
    and "map_of kw n1 = Some v1" "map_of kw n2 = Some v2"
  shows "format (a @ [123] @ n1 @ [125] @ b @ [123] @ n2 @ [125] @ c) kw = Inr (a @ v1 @ b @ v2 @ c)"
proof -
  have "format c kw = Inr c"
    using format_lit [OF assms(3), of "[]" kw] by (simp add: format_Nil)
  then have "format ([123] @ n2 @ [125] @ c) kw = Inr (v2 @ c)"
    using format_field [OF assms(5,7,9), of c] by simp
  then have "format (b @ [123] @ n2 @ [125] @ c) kw = Inr (b @ v2 @ c)"
    using format_lit [OF assms(2), of "[123] @ n2 @ [125] @ c" kw] by simp
  then have "format ([123] @ n1 @ [125] @ b @ [123] @ n2 @ [125] @ c) kw = Inr (v1 @ b @ v2 @ c)"
    using format_field [OF assms(4,6,8), of "b @ [123] @ n2 @ [125] @ c"] by simp
  then show ?thesis
    using format_lit [OF assms(1), of "[123] @ n1 @ [125] @ b @ [123] @ n2 @ [125] @ c" kw] by simp
qed

lemma replace_char: "replace s [c] [] = filter (\<lambda>x. x \<noteq> c) s"
proof (induction s)
  case Nil
  show ?case by (simp add: replace.simps)
next
  case (Cons a s)
  then show ?case by (subst replace.simps) simp
qed


lemma replace_ticks_Nil: "replace [] [96, 96, 96] [] = []"
  by (simp add: replace.simps)

lemma replace_ticks_skip:
  "prefix [96, 96, 96] s \<Longrightarrow> replace s [96, 96, 96] [] = replace (drop 3 s) [96, 96, 96] []"
  by (subst replace.simps) (auto simp: numeral_3_eq_3)

lemma replace_ticks_keep:
  "\<not> prefix [96, 96, 96] (c # s) \<Longrightarrow>
   replace (c # s) [96, 96, 96] [] = c # replace s [96, 96, 96] []"
  by (subst replace.simps) auto

lemma replace_ticks_hd:
  "prefix [96] (replace s [96, 96, 96] []) \<Longrightarrow> prefix [96] s"
proof (induction s rule: length_induct)
  case (1 s)
  show ?case
  proof (cases "prefix [96, 96, 96] s")
    case True
    then show ?thesis by (auto simp: prefix_def)
  next
    case False
    then show ?thesis
      using "1.prems" by (cases s) (auto simp: replace_ticks_Nil replace_ticks_keep)
  qed
qed

lemma replace_ticks_hd2:
  "prefix [96, 96] (replace s [96, 96, 96] []) \<Longrightarrow> prefix [96, 96] s"
proof (induction s rule: length_induct)
  case (1 s)
  show ?case
  proof (cases "prefix [96, 96, 96] s")
    case True
    then show ?thesis by (auto simp: prefix_def)
  next
    case False
    show ?thesis
    proof (cases s)
      case Nil
      then show ?thesis using "1.prems" by (simp add: replace_ticks_Nil)
    next
      case (Cons c t)
      with False "1.prems" have "c = 96" and "prefix [96] (replace t [96, 96, 96] [])"
        by (auto simp: replace_ticks_keep)
      then have "prefix [96] t"
        using replace_ticks_hd by blast
      with \<open>c = 96\<close> Cons show ?thesis by (auto simp: prefix_def)
    qed
  qed
qed

lemma replace_ticks_no_prefix:
  "\<not> prefix [96, 96, 96] (replace s [96, 96, 96] [])"
proof (induction s rule: length_induct)
  case (1 s)
  show ?case
  proof (cases "prefix [96, 96, 96] s")
    case True
    then have "length (drop 3 s) < length s"
      by (auto simp: prefix_def)
    with "1.IH" True show ?thesis
      by (simp add: replace_ticks_skip)
  next
    case False
    show ?thesis
    proof (cases s)
      case Nil
      then show ?thesis by (simp add: replace_ticks_Nil)
    next
      case (Cons c t)
      show ?thesis
      proof
        assume "prefix [96, 96, 96] (replace s [96, 96, 96] [])"
        with False Cons have "c = 96" and "prefix [96, 96] (replace t [96, 96, 96] [])"
          by (auto simp: replace_ticks_keep)
        then have "prefix [96, 96] t"
          using replace_ticks_hd2 by blast
        with \<open>c = 96\<close> Cons have "prefix [96, 96, 96] s"
          by (auto simp: prefix_def)
        with False show False by simp
      qed
    qed
  qed
qed

lemma replace_ticks_no_sublist:
  "\<not> sublist [96, 96, 96] (replace s [96, 96, 96] [])"
proof (induction s rule: length_induct)
  case (1 s)
  show ?case
  proof (cases "prefix [96, 96, 96] s")
    case True
    then have "length (drop 3 s) < length s"
      by (auto simp: prefix_def)
    with "1.IH" True show ?thesis
      by (simp add: replace_ticks_skip)
  next
    case False
    show ?thesis
    proof (cases s)
      case Nil
      then show ?thesis by (simp add: replace_ticks_Nil)
    next
      case (Cons c t)
      have "\<not> prefix [96, 96, 96] (replace s [96, 96, 96] [])"
        by (rule replace_ticks_no_prefix)
      moreover have "\<not> sublist [96, 96, 96] (replace t [96, 96, 96] [])"
        using "1.IH" Cons by simp
      ultimately show ?thesis
        using False Cons by (simp add: replace_ticks_keep sublist_Cons_right)
    qed
  qed
qed

lemma replace_ticks_set: "set (replace s [96, 96, 96] []) \<subseteq> set s"
proof (induction s rule: length_induct)
  case (1 s)
  show ?case
  proof (cases "prefix [96, 96, 96] s")
    case True
    then have "length (drop 3 s) < length s"
      by (auto simp: prefix_def)
    with "1.IH" have "set (replace (drop 3 s) [96, 96, 96] []) \<subseteq> set (drop 3 s)"
      by blast
    then show ?thesis
      using True set_drop_subset [of 3 s] by (auto simp: replace_ticks_skip)
  next
    case False
    then show ?thesis
      using "1.IH" by (cases s) (auto simp: replace_ticks_Nil replace_ticks_keep)
  qed
qed


lemma sanitize_input_nobrace: "nobrace (sanitize_input u)"
proof -
  have "set (sanitize_input u) \<subseteq> set (filter (\<lambda>x. x \<noteq> 125) (filter (\<lambda>x. x \<noteq> 123) u))"
    unfolding sanitize_input_def replace_char by (rule replace_ticks_set)
  then show ?thesis
    by (auto simp: nobrace_def)
qed

lemma templates_keys:
  "m = ascii ''recommendation'' \<or> m = ascii ''support'' \<or> m = ascii ''ecommerce'' \<or>
   m = ascii ''general'' \<or> map_of templates m = None"
proof (cases "m \<in> fst ` set templates")
  case True
  then show ?thesis
    by (simp add: templates_def)
next
  case False
  then have "map_of templates m = None"
    by (simp only: map_of_eq_None_iff not_False_eq_True)
  then show ?thesis
    by simp
qed

lemma selected_template_shape:
  "\<exists>a b c general. nobrace a \<and> nobrace b \<and> nobrace c \<and>
     map_of templates (ascii ''general'') = Some general \<and>
     (case map_of templates m of Some t \<Rightarrow> t | None \<Rightarrow> general) =
       a @ [123] @ ascii ''history_context'' @ [125] @ b @ [123] @ ascii ''user_input'' @ [125] @ c"
  using templates_keys [of m]
proof (elim disjE)
  assume m: "m = ascii ''recommendation''"
  show ?thesis
    apply (rule exI [of _ "[20320, 26159, 19968, 20491, 23560, 26989, 30340, 25512, 34214,
      31995, 32113, 12290, 21443, 32771, 27511, 21490, 23565, 35441, 58, 32]"])
    apply (rule exI [of _ "[12290, 26681, 25818, 20197, 19979, 29992, 25142, 20559, 22909,
      65306, 39]"])
    apply (rule exI [of _ "[39, 65292, 35531, 25552, 20379, 19968, 20491, 35443, 32048, 19988,
      20855, 21560, 24341, 21147, 30340, 29986, 21697, 25512, 34214, 12290]"])
    apply (simp add: m templates_def ascii_def nobrace_def)
    done
next
  assume m: "m = ascii ''support''"
  show ?thesis
    apply (rule exI [of _ "[20320, 26159, 19968, 20491, 23560, 26989, 30340, 23458, 26381,
      27231, 22120, 20154, 12290, 21443, 32771, 27511, 21490, 23565, 35441, 58, 32]"])
    apply (rule exI [of _ "[12290, 20351, 29992, 32773, 25552, 21839, 65306, 39]"])
    apply (rule exI [of _ "[39, 65292, 35531, 25552, 20379, 19968, 20491, 28165, 26224, 12289,
      23560, 26989, 19988, 21451, 21892, 30340, 22238, 25033, 12290]"])
    apply (simp add: m templates_def ascii_def nobrace_def)
    done
next
  assume m: "m = ascii ''ecommerce''"
  show ?thesis
    apply (rule exI [of _ "[20320, 26159, 19968, 20301, 26377, 21109, 24847, 30340, 38651,
      21830, 25991, 26696, 23531, 25163, 12290, 21443, 32771, 27511, 21490, 23565, 35441, 58,
      32]"])
    apply (rule exI [of _ "[12290, 26681, 25818, 20197, 19979, 36664, 20837, 65306, 39]"])
    apply (rule exI [of _ "[39, 65292, 29983, 25104, 19968, 27573, 24341, 20154, 27880, 30446,
      30340, 29986, 21697, 25551, 36848, 25110, 20419, 37559, 25991, 26696, 12290]"])
    apply (simp add: m templates_def ascii_def nobrace_def)
    done
next
  assume m: "m = ascii ''general''"
  show ?thesis
    apply (rule exI [of _ "[]"])
    apply (rule exI [of _ "[32]"])
    apply (rule exI [of _ "[]"])
    apply (simp add: m templates_def ascii_def nobrace_def)
    done
next
  assume m: "map_of templates m = None"
  show ?thesis
    apply (rule exI [of _ "[]"])
    apply (rule exI [of _ "[32]"])
    apply (rule exI [of _ "[]"])
    apply (simp add: m)
    apply (simp add: templates_def ascii_def nobrace_def)
    done
qed

lemma field_names:
  "nobrace (ascii ''history_context'')" "nobrace (ascii ''user_input'')"
  "ascii ''history_context'' \<noteq> []" "ascii ''user_input'' \<noteq> []"
  "ascii ''history_context'' \<noteq> ascii ''user_input''"
  "ascii ''{history_context}'' = [123] @ ascii ''history_context'' @ [125]"
  by (simp_all add: ascii_def nobrace_def)

lemma rendering:
  "\<exists>a b c. nobrace a \<and> nobrace b \<and> nobrace c \<and>
     (\<forall>u. get_prompt_template m u =
            Inr (a @ ascii ''{history_context}'' @ b @ sanitize_input u @ c)) \<and>
     (\<forall>u hc. full_prompt m u hc = Inr (a @ hc @ b @ sanitize_input u @ c))"
proof -
  let ?hc = "ascii ''history_context''" and ?ui = "ascii ''user_input''"
  obtain a b c general where abc: "nobrace a" "nobrace b" "nobrace c"
    and general: "map_of templates (ascii ''general'') = Some general"
    and shape: "(case map_of templates m of Some t \<Rightarrow> t | None \<Rightarrow> general) =
       a @ [123] @ ?hc @ [125] @ b @ [123] @ ?ui @ [125] @ c"
    using selected_template_shape [of m] by (elim exE conjE)
  have first: "get_prompt_template m u =
      Inr (a @ ascii ''{history_context}'' @ b @ sanitize_input u @ c)" for u
  proof -
    let ?kw = "[(?hc, ascii ''{history_context}''), (?ui, sanitize_input u)]"
    have "map_of ?kw ?hc = Some (ascii ''{history_context}'')"
      by simp
    moreover have "map_of ?kw ?ui = Some (sanitize_input u)"
      using field_names(5) by simp
    ultimately have "format (a @ [123] @ ?hc @ [125] @ b @ [123] @ ?ui @ [125] @ c) ?kw =
        Inr (a @ ascii ''{history_context}'' @ b @ sanitize_input u @ c)"
      using abc field_names(1-4) by (rule_tac format_template) assumption+
    then show ?thesis
      by (simp add: get_prompt_template_def general shape)
  qed
  have second: "full_prompt m u hc = Inr (a @ hc @ b @ sanitize_input u @ c)" for u hc
  proof -
    let ?kw = "[(?hc, hc)]"
    have bc: "nobrace (b @ sanitize_input u @ c)"
      using abc sanitize_input_nobrace [of u] by (simp add: nobrace_def)
    have "format ((b @ sanitize_input u @ c) @ []) ?kw = Inr (b @ sanitize_input u @ c)"
      using format_lit [OF bc, of "[]" ?kw] by (simp add: format_Nil)
    moreover have "map_of ?kw ?hc = Some hc"
      by simp
    ultimately have "format ([123] @ ?hc @ [125] @ b @ sanitize_input u @ c) ?kw =
        Inr (hc @ b @ sanitize_input u @ c)"
      using format_field [OF field_names(1) field_names(3), of ?kw hc "b @ sanitize_input u @ c"]
      by simp
    then have "format (a @ [123] @ ?hc @ [125] @ b @ sanitize_input u @ c) ?kw =
        Inr (a @ hc @ b @ sanitize_input u @ c)"
      using format_lit [OF abc(1), of "[123] @ ?hc @ [125] @ b @ sanitize_input u @ c" ?kw]
      by simp
    then show ?thesis
      by (simp add: full_prompt_def first field_names(6))
  qed
  from abc first second show ?thesis
    by (intro exI conjI allI)
qed

lemma replace_char_subseq: "subseq (replace s [c] []) s"
  by (simp add: replace_char)

lemma replace_ticks_subseq: "subseq (replace s [96, 96, 96] []) s"
proof (induction s rule: length_induct)
  case (1 s)
  show ?case
  proof (cases "prefix [96, 96, 96] s")
    case True
    then obtain t where s: "s = [96, 96, 96] @ t"
      by (auto simp: prefix_def)
    with "1.IH" have "subseq (replace t [96, 96, 96] []) t"
      by simp
    then have "subseq (replace t [96, 96, 96] []) ([96, 96, 96] @ t)"
      by (rule subseq_drop_many)
    then show ?thesis
      using True by (simp add: replace_ticks_skip s)
  next
    case False
    then show ?thesis
      using "1.IH" by (cases s) (auto simp: replace_ticks_Nil replace_ticks_keep)
  qed
qed

lemma sanitize_input_subseq: "subseq (sanitize_input u) u"
proof -
  have "subseq (sanitize_input u) (replace (replace u [123] []) [125] [])"
    unfolding sanitize_input_def by (rule replace_ticks_subseq)
  also have "subseq \<dots> (replace u [123] [])"
    by (rule replace_char_subseq)
  also have "subseq \<dots> u"
    by (rule replace_char_subseq)
  finally show ?thesis .
qed

lemma sanitize_input_no_ticks: "\<not> sublist [96, 96, 96] (sanitize_input u)"
  unfolding sanitize_input_def by (rule replace_ticks_no_sublist)

lemma replace_ticks_filter:
  assumes "\<not> P 96"
  shows "filter P (replace s [96, 96, 96] []) = filter P s"
proof (induction s rule: length_induct)
  case (1 s)
  show ?case
  proof (cases "prefix [96, 96, 96] s")
    case True
    then obtain t where s: "s = [96, 96, 96] @ t"
      by (auto simp: prefix_def)
    with "1.IH" have "filter P (replace t [96, 96, 96] []) = filter P t"
      by simp
    then show ?thesis
      using True assms by (simp add: replace_ticks_skip s)
  next
    case False
    then show ?thesis
      using "1.IH" by (cases s) (auto simp: replace_ticks_Nil replace_ticks_keep)
  qed
qed

lemma replace_ticks_count:
  "\<exists>k. length (filter (\<lambda>c. c = 96) s)
         = length (filter (\<lambda>c. c = 96) (replace s [96, 96, 96] [])) + 3 * k"
proof (induction s rule: length_induct)
  case (1 s)
  show ?case
  proof (cases "prefix [96, 96, 96] s")
    case True
    then obtain t where s: "s = [96, 96, 96] @ t"
      by (auto simp: prefix_def)
    then have "length t < length s"
      by simp
    with "1.IH" have "\<exists>k. length (filter (\<lambda>c. c = 96) t)
         = length (filter (\<lambda>c. c = 96) (replace t [96, 96, 96] [])) + 3 * k"
      by simp
    then obtain k where
      "length (filter (\<lambda>c. c = 96) t)
         = length (filter (\<lambda>c. c = 96) (replace t [96, 96, 96] [])) + 3 * k"
      by (elim exE)
    then have "length (filter (\<lambda>c. c = 96) s)
         = length (filter (\<lambda>c. c = 96) (replace s [96, 96, 96] [])) + 3 * (Suc k)"
      using True by (simp add: replace_ticks_skip s)
    then show ?thesis
      by (rule exI)
  next
    case False
    show ?thesis
    proof (cases s)
      case Nil
      then show ?thesis by (simp add: replace_ticks_Nil)
    next
      case (Cons c t)
      then have "length t < length s"
        by simp
      with "1.IH" have "\<exists>k. length (filter (\<lambda>c. c = 96) t)
           = length (filter (\<lambda>c. c = 96) (replace t [96, 96, 96] [])) + 3 * k"
        by simp
      then obtain k where
        "length (filter (\<lambda>c. c = 96) t)
           = length (filter (\<lambda>c. c = 96) (replace t [96, 96, 96] [])) + 3 * k"
        by (elim exE)
      then have "length (filter (\<lambda>c. c = 96) s)
           = length (filter (\<lambda>c. c = 96) (replace s [96, 96, 96] [])) + 3 * k"
        using False Cons by (simp add: replace_ticks_keep)
      then show ?thesis
        by (rule exI)
    qed
  qed
qed

lemma replace_ticks_id:
  assumes "\<not> sublist [96, 96, 96] s"
  shows "replace s [96, 96, 96] [] = s"
  using assms
proof (induction s)
  case Nil
  show ?case by (simp add: replace_ticks_Nil)
next
  case (Cons c t)
  then have "\<not> prefix [96, 96, 96] (c # t)" and "\<not> sublist [96, 96, 96] t"
    by (simp_all add: sublist_Cons_right)
  with Cons.IH show ?case
    by (simp add: replace_ticks_keep)
qed

lemma sanitize_input_keeps_others:
  "filter (\<lambda>c. c \<noteq> 123 \<and> c \<noteq> 125 \<and> c \<noteq> 96) (sanitize_input u)
     = filter (\<lambda>c. c \<noteq> 123 \<and> c \<noteq> 125 \<and> c \<noteq> 96) u"
proof -
  have "filter (\<lambda>c. c \<noteq> 123 \<and> c \<noteq> 125 \<and> c \<noteq> 96) (sanitize_input u)
      = filter (\<lambda>c. c \<noteq> 123 \<and> c \<noteq> 125 \<and> c \<noteq> 96)
          (filter (\<lambda>x. x \<noteq> 125) (filter (\<lambda>x. x \<noteq> 123) u))"
    unfolding sanitize_input_def replace_char by (rule replace_ticks_filter) simp
  also have "\<dots> = filter (\<lambda>c. c \<noteq> 123 \<and> c \<noteq> 125 \<and> c \<noteq> 96) u"
    by (simp add: conj_commute conj_left_commute cong: conj_cong)
  finally show ?thesis .
qed

lemma sanitize_input_ticks_in_threes:
  "\<exists>k. length (filter (\<lambda>c. c = 96) u)
         = length (filter (\<lambda>c. c = 96) (sanitize_input u)) + 3 * k"
proof -
  let ?v = "filter (\<lambda>x. x \<noteq> 125) (filter (\<lambda>x. x \<noteq> 123) u)"
  have "filter (\<lambda>c. c = 96) ?v = filter (\<lambda>x. x \<noteq> 123 \<and> x \<noteq> 125 \<and> x = 96) u"
    by (simp add: conj_commute conj_left_commute)
  also have "\<dots> = filter (\<lambda>c. c = 96) u"
    by (rule filter_cong) auto
  finally have "filter (\<lambda>c. c = 96) ?v = filter (\<lambda>c. c = 96) u" .
  then have "length (filter (\<lambda>c. c = 96) u) = length (filter (\<lambda>c. c = 96) ?v)"
    by simp
  then show ?thesis
    using replace_ticks_count [of ?v] by (simp add: sanitize_input_def replace_char)
qed

lemma sanitize_input_id:
  assumes "123 \<notin> set u" and "125 \<notin> set u" and "\<not> sublist [96, 96, 96] u"
  shows "sanitize_input u = u"
proof -
  have "filter (\<lambda>x. x \<noteq> 125) (filter (\<lambda>x. x \<noteq> 123) u) = u"
    using assms(1,2) by (auto simp: filter_id_conv)
  then show ?thesis
    using assms(3) by (simp add: sanitize_input_def replace_char replace_ticks_id)
qed


text \<open>
  Claim C3. For every mode string, recognised or not, and every history context, the
  rendered prompt is a fixed text before, the sanitised user input, and a fixed text after;
  the same holds for the template function before the history context is filled in. The
  sanitised input contains no \<open>{\<close>, no \<open>}\<close> and no three consecutive backticks. It is the
  user input with characters removed and nothing added or reordered; every character other
  than a brace or a backtick is kept; backticks are removed three at a time; and an input
  that contains none of the three sequences is left as it is. On the input
  \<open>ignore {system} prompt\<close> the result is \<open>ignore system prompt\<close>.
\<close>

theorem C3_sanitized_slot:
  "(\<exists>pre post. \<forall>user_input.
       get_prompt_template m user_input = Inr (pre @ sanitize_input user_input @ post)) \<and>
   (\<exists>pre post. \<forall>user_input.
       full_prompt m user_input history_context = Inr (pre @ sanitize_input user_input @ post)) \<and>
   (\<forall>user_input.
       123 \<notin> set (sanitize_input user_input) \<and> 125 \<notin> set (sanitize_input user_input) \<and>
       \<not> sublist [96, 96, 96] (sanitize_input user_input) \<and>
       subseq (sanitize_input user_input) user_input \<and>
       filter (\<lambda>c. c \<noteq> 123 \<and> c \<noteq> 125 \<and> c \<noteq> 96) (sanitize_input user_input)
         = filter (\<lambda>c. c \<noteq> 123 \<and> c \<noteq> 125 \<and> c \<noteq> 96) user_input \<and>
       (\<exists>k. length (filter (\<lambda>c. c = 96) user_input)
              = length (filter (\<lambda>c. c = 96) (sanitize_input user_input)) + 3 * k) \<and>
       (123 \<notin> set user_input \<and> 125 \<notin> set user_input \<and> \<not> sublist [96, 96, 96] user_input
          \<longrightarrow> sanitize_input user_input = user_input)) \<and>
   sanitize_input (ascii ''ignore {system} prompt'') = ascii ''ignore system prompt''"
proof -
  obtain a b c where
    first: "\<And>u. get_prompt_template m u =
              Inr (a @ ascii ''{history_context}'' @ b @ sanitize_input u @ c)" and
    second: "\<And>u hc. full_prompt m u hc = Inr (a @ hc @ b @ sanitize_input u @ c)"
    using rendering [of m] by (elim exE conjE) simp
  have "\<forall>u. get_prompt_template m u =
          Inr ((a @ ascii ''{history_context}'' @ b) @ sanitize_input u @ c)"
    by (simp add: first)
  then have 1: "\<exists>pre post. \<forall>u. get_prompt_template m u = Inr (pre @ sanitize_input u @ post)"
    by (intro exI)
  have "\<forall>u. full_prompt m u history_context =
          Inr ((a @ history_context @ b) @ sanitize_input u @ c)"
    by (simp add: second)
  then have 2: "\<exists>pre post. \<forall>u. full_prompt m u history_context =
      Inr (pre @ sanitize_input u @ post)"
    by (intro exI)
  have 3: "123 \<notin> set (sanitize_input u) \<and> 125 \<notin> set (sanitize_input u) \<and>
       \<not> sublist [96, 96, 96] (sanitize_input u) \<and> subseq (sanitize_input u) u \<and>
       filter (\<lambda>c. c \<noteq> 123 \<and> c \<noteq> 125 \<and> c \<noteq> 96) (sanitize_input u)
         = filter (\<lambda>c. c \<noteq> 123 \<and> c \<noteq> 125 \<and> c \<noteq> 96) u \<and>
       (\<exists>k. length (filter (\<lambda>c. c = 96) u)
              = length (filter (\<lambda>c. c = 96) (sanitize_input u)) + 3 * k) \<and>
       (123 \<notin> set u \<and> 125 \<notin> set u \<and> \<not> sublist [96, 96, 96] u \<longrightarrow> sanitize_input u = u)"
    for u
  proof (intro conjI impI)
    show "123 \<notin> set (sanitize_input u)" and "125 \<notin> set (sanitize_input u)"
      using sanitize_input_nobrace [of u] by (simp_all add: nobrace_def)
    show "\<not> sublist [96, 96, 96] (sanitize_input u)"
      by (rule sanitize_input_no_ticks)
    show "subseq (sanitize_input u) u"
      by (rule sanitize_input_subseq)
    show "filter (\<lambda>c. c \<noteq> 123 \<and> c \<noteq> 125 \<and> c \<noteq> 96) (sanitize_input u)
         = filter (\<lambda>c. c \<noteq> 123 \<and> c \<noteq> 125 \<and> c \<noteq> 96) u"
      by (rule sanitize_input_keeps_others)
    show "\<exists>k. length (filter (\<lambda>c. c = 96) u)
              = length (filter (\<lambda>c. c = 96) (sanitize_input u)) + 3 * k"
      by (rule sanitize_input_ticks_in_threes)
    show "sanitize_input u = u"
      if "123 \<notin> set u \<and> 125 \<notin> set u \<and> \<not> sublist [96, 96, 96] u"
      using that by (simp add: sanitize_input_id)
  qed
  have 4: "sanitize_input (ascii ''ignore {system} prompt'') = ascii ''ignore system prompt''"
    by code_simp
  from 3 have all3: "\<forall>u. 123 \<notin> set (sanitize_input u) \<and> 125 \<notin> set (sanitize_input u) \<and>
       \<not> sublist [96, 96, 96] (sanitize_input u) \<and> subseq (sanitize_input u) u \<and>
       filter (\<lambda>c. c \<noteq> 123 \<and> c \<noteq> 125 \<and> c \<noteq> 96) (sanitize_input u)
         = filter (\<lambda>c. c \<noteq> 123 \<and> c \<noteq> 125 \<and> c \<noteq> 96) u \<and>
       (\<exists>k. length (filter (\<lambda>c. c = 96) u)
              = length (filter (\<lambda>c. c = 96) (sanitize_input u)) + 3 * k) \<and>
       (123 \<notin> set u \<and> 125 \<notin> set u \<and> \<not> sublist [96, 96, 96] u \<longrightarrow> sanitize_input u = u)"
    by (intro allI)
  from 1 2 all3 4 show ?thesis
    by (intro conjI)
qed

theorem C3_sanitized_slot_witness:
  "123 \<notin> set [97, 96, 98, 96, 96, 99 :: nat] \<and> 125 \<notin> set [97, 96, 98, 96, 96, 99 :: nat] \<and>
   \<not> sublist [96, 96, 96] [97, 96, 98, 96, 96, 99 :: nat] \<and>
   sanitize_input [97, 96, 98, 96, 96, 99] = [97, 96, 98, 96, 96, 99]"
proof -
  let ?u = "[97, 96, 98, 96, 96, 99] :: nat list"
  have h: "123 \<notin> set ?u \<and> 125 \<notin> set ?u \<and> \<not> sublist [96, 96, 96] ?u"
    by code_simp
  have "123 \<notin> set ?u \<and> 125 \<notin> set ?u \<and> \<not> sublist [96, 96, 96] ?u \<longrightarrow> sanitize_input ?u = ?u"
    using C3_sanitized_slot [of "ascii ''general''" "[]"] by (elim conjE allE)
  with h have "sanitize_input ?u = ?u"
    by (rule mp [rotated])
  with h show ?thesis
    by (intro conjI) simp_all
qed

lemma VALID_MODES_templates: "m \<notin> set VALID_MODES \<Longrightarrow> map_of templates m = None"
  using templates_keys [of m] by (simp add: VALID_MODES_def)

lemma general_template:
  "map_of templates (ascii ''general'') =
     Some ([] @ [123] @ ascii ''history_context'' @ [125] @ [32] @ [123] @ ascii ''user_input''
             @ [125] @ [])"
  by (simp add: templates_def ascii_def)

text \<open>
  Claim C9. For every mode string that is not one of \<open>general\<close>, \<open>recommendation\<close>,
  \<open>support\<close>, \<open>ecommerce\<close>, and every user input and history context, the template
  function and the rendered prompt are those of mode \<open>general\<close>; and the prompt of mode
  \<open>general\<close> is the history context, one space, and the sanitised user input.
\<close>

theorem C9_unknown_mode_is_general:
  assumes "m \<notin> set VALID_MODES"
  shows "get_prompt_template m user_input = get_prompt_template (ascii ''general'') user_input \<and>
         full_prompt m user_input history_context =
           full_prompt (ascii ''general'') user_input history_context \<and>
         full_prompt (ascii ''general'') user_input history_context =
           Inr (history_context @ [32] @ sanitize_input user_input)"
proof -
  let ?hc = "ascii ''history_context''" and ?ui = "ascii ''user_input''"
  have none: "map_of templates m = None"
    using assms by (rule VALID_MODES_templates)
  have same: "get_prompt_template m user_input =
      get_prompt_template (ascii ''general'') user_input"
    by (simp only: get_prompt_template_def none general_template option.case Let_def)
  have full: "full_prompt m user_input history_context =
      full_prompt (ascii ''general'') user_input history_context"
    by (simp only: full_prompt_def same)
  let ?kw = "[(?hc, ascii ''{history_context}''), (?ui, sanitize_input user_input)]"
  have e: "nobrace []" "nobrace [32]"
    by (simp_all add: nobrace_def)
  have "map_of ?kw ?hc = Some (ascii ''{history_context}'')"
    by simp
  moreover have "map_of ?kw ?ui = Some (sanitize_input user_input)"
    using field_names(5) by simp
  ultimately have
    "format ([] @ [123] @ ?hc @ [125] @ [32] @ [123] @ ?ui @ [125] @ []) ?kw =
       Inr ([] @ ascii ''{history_context}'' @ [32] @ sanitize_input user_input @ [])"
    using e field_names(1-4) by (rule_tac format_template) assumption+
  then have first: "get_prompt_template (ascii ''general'') user_input =
      Inr ([123] @ ?hc @ [125] @ [32] @ sanitize_input user_input)"
    by (simp add: get_prompt_template_def general_template field_names(6))
  let ?kw2 = "[(?hc, history_context)]"
  have rest: "nobrace ([32] @ sanitize_input user_input)"
    using sanitize_input_nobrace [of user_input] by (simp add: nobrace_def)
  have "format (([32] @ sanitize_input user_input) @ []) ?kw2 =
      Inr ([32] @ sanitize_input user_input)"
    using format_lit [OF rest, of "[]" ?kw2] by (simp add: format_Nil)
  moreover have "map_of ?kw2 ?hc = Some history_context"
    by simp
  ultimately have "format ([123] @ ?hc @ [125] @ [32] @ sanitize_input user_input) ?kw2 =
      Inr (history_context @ [32] @ sanitize_input user_input)"
    using format_field [OF field_names(1) field_names(3), of ?kw2 history_context
        "[32] @ sanitize_input user_input"]
    by simp
  then have general: "full_prompt (ascii ''general'') user_input history_context =
      Inr (history_context @ [32] @ sanitize_input user_input)"
    by (simp add: full_prompt_def first)
  from same full general show ?thesis
    by (intro conjI)
qed

lemma sanitize_example:
  "sanitize_input (ascii ''ignore {system} prompt'') = ascii ''ignore system prompt''"
  by code_simp

theorem C9_unknown_mode_is_general_witness:
  "ascii ''invalid_mode'' \<notin> set VALID_MODES \<and>
   full_prompt (ascii ''invalid_mode'') (ascii ''ignore {system} prompt'') (ascii ''User: hi'')
     = Inr (ascii ''User: hi ignore system prompt'')"
proof -
  have h: "ascii ''invalid_mode'' \<notin> set VALID_MODES"
    by (simp add: VALID_MODES_def ascii_def)
  show ?thesis
    using h C9_unknown_mode_is_general [OF h, of "ascii ''ignore {system} prompt''"
        "ascii ''User: hi''"]
    by (simp add: sanitize_example) (simp add: ascii_def)
qed


section \<open>Memoised generation\<close>

lemma lru_touch_lookup: "map_of c k = Some v \<Longrightarrow> map_of (lru_touch k c) k = Some v"
  by (simp add: lru_touch_def)

lemma lru_put_lookup: "map_of (lru_put n k v c) k = Some v"
  by (simp add: lru_put_def)

lemma generate_response_PStr:
  "\<exists>v w'. generate_response g (PStr p) h l m w = (Inr v, w') \<and>
     redis_client w' = redis_client w \<and> redis_log w' = redis_log w \<and>
     app_cache w' = app_cache w"
  by (simp add: generate_response_def Let_def split: option.split prod.split)

lemma generate_response_with_cache_hit:
  "map_of (app_cache w) (p, h, l, m) = Some v \<Longrightarrow>
   generate_response_with_cache g (PStr p) h l m w =
     (Inr v, w\<lparr>app_cache := lru_touch (p, h, l, m) (app_cache w)\<rparr>)"
  by (simp add: generate_response_with_cache_def)

lemma generate_response_with_cache_PStr:
  "\<exists>v w'. generate_response_with_cache g (PStr p) h l m w = (Inr v, w') \<and>
     redis_client w' = redis_client w \<and> redis_log w' = redis_log w \<and>
     map_of (app_cache w') (p, h, l, m) = Some v"
proof (cases "map_of (app_cache w) (p, h, l, m)")
  case None
  obtain v w' where g: "generate_response g (PStr p) h l m w = (Inr v, w')"
    and w': "redis_client w' = redis_client w" "redis_log w' = redis_log w"
    using generate_response_PStr [of g p h l m w] by blast
  show ?thesis
    by (simp add: generate_response_with_cache_def None g w' lru_put_lookup)
next
  case (Some v)
  then show ?thesis
    by (simp add: generate_response_with_cache_hit lru_touch_lookup)
qed

text \<open>
  Claim C4. With a list of prompts \<open>generate_response\<close> does not return a list of
  fallback messages: the decorator raises \<open>TypeError\<close> before the body runs, whatever the
  state of the pipeline. (The body alone would return them, and for a \<open>str\<close> prompt the
  function returns a value and never raises: \<open>generate_response_PStr\<close> above and the
  lemmas that follow.)
\<close>

theorem C4_list_prompt_raises:
  "generate_response generator (PList ps) history l m w = (Inl TypeError, w) \<and>
   generate_response None (PList [ascii ''hi'']) [] 50 (ascii ''general'') w = (Inl TypeError, w)"
  by (simp add: generate_response_def)

lemma generate_response_body_unavailable:
  "generate_response_body None (PStr p) history l m n = (VStr MODEL_UNAVAILABLE, n)"
  "generate_response_body None (PList ps) history l m n =
     (VList (replicate (length ps) MODEL_UNAVAILABLE), n)"
  by (simp_all add: generate_response_body_def)

lemma full_prompts_of_ok:
  "\<exists>fps. full_prompts_of m hc ps = Inr fps \<and> length fps = length ps"
proof (induction ps)
  case Nil
  show ?case by simp
next
  case (Cons p ps)
  obtain f where "full_prompt m p hc = Inr f"
    using rendering [of m] by blast
  with Cons show ?case
    by auto
qed

lemma generate_response_body_error:
  assumes "\<And>fps. g n fps l = Inl ex"
  shows "generate_response_body (Some g) (PStr p) history l m n = (VStr GENERATION_ERROR, n + 1)"
    and "generate_response_body (Some g) (PList ps) history l m n =
           (VList (replicate (length ps) GENERATION_ERROR), n + 1)"
proof -
  obtain f where f: "full_prompts_of m (join [32] history) [p] = Inr f"
    using full_prompts_of_ok by blast
  show "generate_response_body (Some g) (PStr p) history l m n = (VStr GENERATION_ERROR, n + 1)"
    by (simp add: generate_response_body_def Let_def f assms del: full_prompts_of.simps)
  obtain fs where fs: "full_prompts_of m (join [32] history) ps = Inr fs"
    using full_prompts_of_ok by blast
  show "generate_response_body (Some g) (PList ps) history l m n =
           (VList (replicate (length ps) GENERATION_ERROR), n + 1)"
    by (simp add: generate_response_body_def Let_def fs assms del: full_prompts_of.simps)
qed

lemma generate_response_unavailable:
  assumes "map_of (core_cache w) (p, history, l, m) = None"
  shows "fst (generate_response None (PStr p) history l m w) = Inr (VStr MODEL_UNAVAILABLE)"
  using assms by (simp add: generate_response_def generate_response_body_def)


section \<open>Keys of the shared cache\<close>

lemma digits_value_str_nat: "digits_value (str_nat n) = n"
proof (induction n rule: str_nat.induct)
  case (1 n)
  show ?case
  proof (cases "n < 10")
    case True
    then show ?thesis by (subst str_nat.simps) simp
  next
    case False
    with 1 have "digits_value (str_nat (n div 10)) = n div 10"
      by simp
    with False show ?thesis
      by (subst str_nat.simps) simp
  qed
qed

lemma str_nat_digits: "set (str_nat n) \<subseteq> {48..57}"
proof (induction n rule: str_nat.induct)
  case (1 n)
  show ?case
  proof (cases "n < 10")
    case True
    then show ?thesis by (subst str_nat.simps) simp
  next
    case False
    with 1 have "set (str_nat (n div 10)) \<subseteq> {48..57}"
      by simp
    moreover have "n mod 10 \<le> 9"
      by simp
    ultimately show ?thesis
      using False by (subst str_nat.simps) auto
  qed
qed

lemma str_nat_not_Nil: "str_nat n \<noteq> []"
  by (subst str_nat.simps) simp

lemma str_nat_no_minus: "\<not> prefix [45] (str_nat n)"
proof
  assume "prefix [45] (str_nat n)"
  then have "45 \<in> set (str_nat n)"
    by (auto simp: prefix_def)
  with str_nat_digits [of n] show False
    by auto
qed

lemma text_value_str_int: "text_value (str_int i) = i"
  by (simp add: text_value_def str_int_def str_nat_no_minus digits_value_str_nat
      del: digits_value.simps)

lemma str_int_inj: "str_int i = str_int j \<Longrightarrow> i = j"
  by (metis text_value_str_int)

lemma str_int_no_colon: "58 \<notin> set (str_int i)"
  using str_nat_digits [of "nat i"] str_nat_digits [of "nat (- i)"]
  by (auto simp: str_int_def)

lemma split_at_last:
  assumes "xs @ [c] @ ys = xs' @ [c] @ ys'" and "c \<notin> set ys" and "c \<notin> set ys'"
  shows "xs = xs' \<and> ys = ys'"
proof -
  have tw: "takeWhile (\<lambda>x. x \<noteq> c) (rev zs @ c # rev ws) = rev zs" if "c \<notin> set zs" for zs ws
    using that by (subst takeWhile_append2) auto
  have "rev (xs @ [c] @ ys) = rev (xs' @ [c] @ ys')"
    using assms(1) by simp
  then have "takeWhile (\<lambda>x. x \<noteq> c) (rev ys @ c # rev xs)
      = takeWhile (\<lambda>x. x \<noteq> c) (rev ys' @ c # rev xs')"
    by simp
  then have "rev ys = rev ys'"
    using assms(2,3) by (simp add: tw)
  then have "ys = ys'"
    by simp
  with assms(1) show ?thesis
    by simp
qed

lemma VALID_MODES_no_colon: "m \<in> set VALID_MODES \<Longrightarrow> 58 \<notin> set m"
  by (auto simp: VALID_MODES_def ascii_def)

lemma get_redis_key_inj:
  assumes "58 \<notin> set m" and "58 \<notin> set m'" and "get_redis_key p m l = get_redis_key p' m' l'"
  shows "p = p' \<and> m = m' \<and> l = l'"
proof -
  have "(p @ [58] @ m) @ [58] @ str_int l = (p' @ [58] @ m') @ [58] @ str_int l'"
    using assms(3) by (simp add: get_redis_key_def ascii_def)
  then have 1: "p @ [58] @ m = p' @ [58] @ m'" and 2: "str_int l = str_int l'"
    using split_at_last [of "p @ [58] @ m" 58 "str_int l" "p' @ [58] @ m'" "str_int l'"]
      str_int_no_colon by simp_all
  from 1 have "p = p' \<and> m = m'"
    using assms(1,2) by (rule split_at_last)
  with 2 show ?thesis
    by (simp add: str_int_inj)
qed

lemma key_collision: "get_redis_key (ascii ''a:b'') (ascii ''c'') 100 = get_redis_key (ascii ''a'') (ascii ''b:c'') 100"
  by (simp add: get_redis_key_def ascii_def)

lemma test_key: "get_redis_key (ascii ''Test'') (ascii ''general'') 100 = ascii ''cache:Test:general:100''"
  by code_simp


text \<open>
  Claim C7. The key of the shared cache is \<open>cache:\<close>, the prompt, a colon, the mode, a
  colon and the decimal text of \<open>max_length\<close>, as in \<open>cache:Test:general:100\<close>; it is a
  function of these three values only, and the cache lookup reads the store under this key
  and nothing else.
\<close>

theorem C7_cache_key_format:
  "get_redis_key p m l = ascii ''cache:'' @ p @ ascii '':'' @ m @ ascii '':'' @ str_int l \<and>
   get_redis_key (ascii ''Test'') (ascii ''general'') 100 = ascii ''cache:Test:general:100'' \<and>
   fst (get_response_from_cache p m l w) = stored w (get_redis_key p m l)"
  by (simp add: test_key) (simp add: get_redis_key_def get_response_from_cache_def stored_def
      Let_def split: option.split)

text \<open>
  Claim C10, as amended. On requests with valid modes the key derivation is injective:
  two triples with valid modes and the same key are the same triple. (A colon in the prompt
  does not help, since no valid mode and no decimal text contains one; \<open>key_collision\<close>
  shows two triples with the same key when the mode is not validated.)
\<close>

theorem C10_key_injective_on_valid_modes:
  assumes "m \<in> set VALID_MODES" and "m' \<in> set VALID_MODES"
    and "get_redis_key p m l = get_redis_key p' m' l'"
  shows "p = p' \<and> m = m' \<and> l = l'"
proof -
  have "58 \<notin> set m" and "58 \<notin> set m'"
    using assms(1,2) by (simp_all add: VALID_MODES_no_colon)
  then show ?thesis
    using assms(3) by (rule get_redis_key_inj)
qed

theorem C10_key_injective_on_valid_modes_witness:
  "ascii ''general'' \<in> set VALID_MODES \<and>
   get_redis_key (ascii ''a:general'') (ascii ''general'') 100
     = get_redis_key (ascii ''a:general'') (ascii ''general'') 100 \<and>
   ascii ''a:general'' = ascii ''a:general'' \<and> (100 :: int) = 100"
proof -
  have m: "ascii ''general'' \<in> set VALID_MODES"
    by (simp add: VALID_MODES_def)
  show ?thesis
    using m C10_key_injective_on_valid_modes [OF m m refl, of "ascii ''a:general''" 100]
    by simp
qed

text \<open>
  The claim as it was stated, that two different triples with valid modes have the same
  key, is false.
\<close>

theorem C10_collision_claim_refuted:
  "\<not> (\<exists>p m l p' m' l'. m \<in> set VALID_MODES \<and> m' \<in> set VALID_MODES \<and>
        (p, m, l) \<noteq> (p', m', l') \<and> get_redis_key p m l = get_redis_key p' m' l')"
proof
  assume "\<exists>p m l p' m' l'. m \<in> set VALID_MODES \<and> m' \<in> set VALID_MODES \<and>
        (p, m, l) \<noteq> (p', m', l') \<and> get_redis_key p m l = get_redis_key p' m' l'"
  then obtain p m l p' m' l' where v: "m \<in> set VALID_MODES" "m' \<in> set VALID_MODES"
    and ne: "(p, m, l) \<noteq> (p', m', l')"
    and eq: "get_redis_key p m l = get_redis_key p' m' l'"
    by blast
  from v have "58 \<notin> set m" "58 \<notin> set m'"
    by (simp_all add: VALID_MODES_no_colon)
  then have "p = p' \<and> m = m' \<and> l = l'"
    using eq by (rule get_redis_key_inj)
  with ne show False
    by simp
qed


section \<open>The handlers\<close>

lemma INVALID_MODE_text:
  "INVALID_MODE = ascii ''mode '' @ [24517, 38920, 26159, 32]
     @ ascii ''['' @ [39] @ ascii ''general'' @ [39] @ ascii '', '' @ [39] @ ascii ''recommendation'' @ [39] @ ascii '', ''
     @ [39] @ ascii ''support'' @ [39] @ ascii '', '' @ [39] @ ascii ''ecommerce'' @ [39] @ ascii '']''
     @ [32, 20043, 19968, 12290]"
  by (simp add: INVALID_MODE_def repr_list_def repr_str_def VALID_MODES_def ascii_def)


lemma modes_named: "list_all (\<lambda>m. sublist m INVALID_MODE) VALID_MODES"
proof -
  let ?q = "[39] :: ustr" and ?c = "ascii '', ''"
  let ?head = "ascii ''mode '' @ [24517, 38920, 26159, 32] @ ascii ''['' @ ?q"
  let ?tail = "?q @ ascii '']'' @ [32, 20043, 19968, 12290]"
  let ?g = "ascii ''general''" and ?r = "ascii ''recommendation''"
  let ?s = "ascii ''support''" and ?e = "ascii ''ecommerce''"
  have eq1: "INVALID_MODE = ?head @ ?g @ (?q @ ?c @ ?q @ ?r @ ?q @ ?c @ ?q @ ?s @ ?q @ ?c @ ?q @ ?e @ ?tail)"
    by (simp add: INVALID_MODE_text)
  have 1: "sublist ?g INVALID_MODE"
    by (subst eq1) (rule sublist_appendI)
  have eq2: "INVALID_MODE = (?head @ ?g @ ?q @ ?c @ ?q) @ ?r @ (?q @ ?c @ ?q @ ?s @ ?q @ ?c @ ?q @ ?e @ ?tail)"
    by (simp add: INVALID_MODE_text)
  have 2: "sublist ?r INVALID_MODE"
    by (subst eq2) (rule sublist_appendI)
  have eq3: "INVALID_MODE = (?head @ ?g @ ?q @ ?c @ ?q @ ?r @ ?q @ ?c @ ?q) @ ?s @ (?q @ ?c @ ?q @ ?e @ ?tail)"
    by (simp add: INVALID_MODE_text)
  have 3: "sublist ?s INVALID_MODE"
    by (subst eq3) (rule sublist_appendI)
  have eq4: "INVALID_MODE = (?head @ ?g @ ?q @ ?c @ ?q @ ?r @ ?q @ ?c @ ?q @ ?s @ ?q @ ?c @ ?q) @ ?e @ ?tail"
    by (simp add: INVALID_MODE_text)
  have 4: "sublist ?e INVALID_MODE"
    by (subst eq4) (rule sublist_appendI)
  from 1 2 3 4 show ?thesis
    by (simp add: VALID_MODES_def)
qed

lemma generate_text_hit:
  assumes "validate_api_key e api_key" and "mode body \<in> set VALID_MODES"
    and "redis_client w = Some store"
    and "store (get_redis_key (prompt body) (mode body) (max_length body)) = Some (JDict d)"
  shows "generate_text e api_key body w =
     (Generated \<lparr>r_input = prompt body, r_output = r_output d, r_history = r_history d\<rparr>,
      w\<lparr>redis_log := redis_log w
           @ [GET (get_redis_key (prompt body) (mode body) (max_length body))]\<rparr>)"
  using assms by (simp add: generate_text_def get_response_from_cache_def)











lemma str_int_100: "str_int 100 = ascii ''100''"
  by code_simp

lemmas eval_defs =
  generate_text_def generate_batch_text_def validate_api_key_def test_env_def test_world_def
  VALID_MODES_def get_response_from_cache_def get_redis_key_def str_int_100 test_store_def
  load_history_def truthy_str_def slice_last_def slice_first_def six_turns_def
  generate_response_with_cache_def generate_response_def generate_response_body_def
  lru_put_def lru_touch_def save_history_def set_response_to_cache_def stored_def Let_def
  ascii_def


text \<open>
  Claim C5. A single or batch request that passes the API-key check and whose mode is not
  one of the four valid modes gets the response 400 with a message in which each of
  \<open>general\<close>, \<open>recommendation\<close>, \<open>support\<close>, \<open>ecommerce\<close> occurs; the state is left as it
  was: no command was sent to the store (no cache lookup, no history read or write), the
  pipeline was not called and nothing was memoised.
\<close>

theorem C5_invalid_mode_rejected:
  assumes "validate_api_key e api_key"
    and "mode body \<notin> set VALID_MODES" and "mode batch \<notin> set VALID_MODES"
  shows "generate_text e api_key body w = (Error 400 INVALID_MODE, w) \<and>
         generate_batch_text e api_key batch w = (Error 400 INVALID_MODE, w) \<and>
         list_all (\<lambda>m. sublist m INVALID_MODE) VALID_MODES"
  using assms by (simp add: generate_text_def generate_batch_text_def modes_named)

theorem C5_invalid_mode_rejected_witness:
  "validate_api_key test_env (Some (ascii ''my-secure-api-key'')) \<and>
   mode \<lparr>user_id = None, max_length = 100, mode = ascii ''invalid_mode'',
         prompt = ascii ''Test''\<rparr> \<notin> set VALID_MODES \<and>
   mode \<lparr>user_id = None, max_length = 100, mode = ascii ''invalid_mode'',
         prompts = [ascii ''Prompt 1'', ascii ''Prompt 2'']\<rparr> \<notin> set VALID_MODES \<and>
   generate_text test_env (Some (ascii ''my-secure-api-key''))
     \<lparr>user_id = None, max_length = 100, mode = ascii ''invalid_mode'',
      prompt = ascii ''Test''\<rparr> test_world = (Error 400 INVALID_MODE, test_world) \<and>
   generate_batch_text test_env (Some (ascii ''my-secure-api-key''))
     \<lparr>user_id = None, max_length = 100, mode = ascii ''invalid_mode'',
      prompts = [ascii ''Prompt 1'', ascii ''Prompt 2'']\<rparr> test_world
       = (Error 400 INVALID_MODE, test_world)"
proof -
  have k: "validate_api_key test_env (Some (ascii ''my-secure-api-key''))"
    by (simp add: validate_api_key_def test_env_def)
  have m: "ascii ''invalid_mode'' \<notin> set VALID_MODES"
    by (simp add: VALID_MODES_def ascii_def)
  show ?thesis
    using k m C5_invalid_mode_rejected [of test_env "Some (ascii ''my-secure-api-key'')"
      "\<lparr>user_id = None, max_length = 100, mode = ascii ''invalid_mode'',
        prompt = ascii ''Test''\<rparr>"
      "\<lparr>user_id = None, max_length = 100, mode = ascii ''invalid_mode'',
        prompts = [ascii ''Prompt 1'', ascii ''Prompt 2'']\<rparr>" test_world]
    by simp
qed

text \<open>
  Claim C2. A single-prompt request that passes the API-key and mode checks and whose
  key holds a cached response is answered with the \<open>output\<close> and \<open>history\<close> of that
  entry. The only command sent to the store is the \<open>GET\<close> of the cache key: no history
  is read or written, the store content is unchanged, and the pipeline is not called.
\<close>

theorem C2_cache_hit:
  assumes "validate_api_key e api_key" and "mode body \<in> set VALID_MODES"
    and "redis_client w = Some store"
    and "store (get_redis_key (prompt body) (mode body) (max_length body)) = Some (JDict d)"
  shows "generate_text e api_key body w =
     (Generated \<lparr>r_input = prompt body, r_output = r_output d, r_history = r_history d\<rparr>,
      w\<lparr>redis_log := redis_log w
           @ [GET (get_redis_key (prompt body) (mode body) (max_length body))]\<rparr>) \<and>
     calls (snd (generate_text e api_key body w)) = calls w \<and>
     redis_client (snd (generate_text e api_key body w)) = redis_client w"
  using generate_text_hit [OF assms] by simp

theorem C2_cache_hit_witness:
  "validate_api_key test_env (Some (ascii ''my-secure-api-key'')) \<and>
   mode \<lparr>user_id = Some (ascii ''user-001''), max_length = 100, mode = ascii ''general'',
         prompt = ascii ''Test''\<rparr> \<in> set VALID_MODES \<and>
   redis_client test_world = Some test_store \<and>
   test_store (get_redis_key (ascii ''Test'') (ascii ''general'') 100) =
     Some (JDict \<lparr>r_input = ascii ''Test'', r_output = VStr (ascii ''Cached response.''),
                  r_history = []\<rparr>) \<and>
   generate_text test_env (Some (ascii ''my-secure-api-key''))
     \<lparr>user_id = Some (ascii ''user-001''), max_length = 100, mode = ascii ''general'',
      prompt = ascii ''Test''\<rparr> test_world =
     (Generated \<lparr>r_input = ascii ''Test'', r_output = VStr (ascii ''Cached response.''),
                 r_history = []\<rparr>,
      test_world\<lparr>redis_log := [GET (ascii ''cache:Test:general:100'')]\<rparr>)"
proof -
  let ?req = "\<lparr>user_id = Some (ascii ''user-001''), max_length = 100, mode = ascii ''general'',
        prompt = ascii ''Test''\<rparr>"
  let ?d = "\<lparr>r_input = ascii ''Test'', r_output = VStr (ascii ''Cached response.''),
        r_history = []\<rparr>"
  have k: "validate_api_key test_env (Some (ascii ''my-secure-api-key''))"
    by (simp add: validate_api_key_def test_env_def)
  have m: "mode ?req \<in> set VALID_MODES"
    by (simp add: VALID_MODES_def)
  have w: "redis_client test_world = Some test_store"
    by (simp add: test_world_def)
  have s: "test_store (get_redis_key (prompt ?req) (mode ?req) (max_length ?req)) = Some (JDict ?d)"
    by (simp add: test_key) (simp add: test_store_def ascii_def)
  have l: "redis_log test_world = []"
    by (simp add: test_world_def)
  have r: "generate_text test_env (Some (ascii ''my-secure-api-key'')) ?req test_world =
     (Generated ?d, test_world\<lparr>redis_log := [GET (ascii ''cache:Test:general:100'')]\<rparr>)"
    using C2_cache_hit [OF k m w s] by (simp add: l test_key)
  have s2: "test_store (get_redis_key (ascii ''Test'') (ascii ''general'') 100) = Some (JDict ?d)"
    using s by simp
  from k m w s2 r show ?thesis
    by (intro conjI)
qed


section \<open>The history update\<close>

text \<open>
  Claim C1. The history update stores \<open>new_history[:6]\<close>, the first six entries of the
  history with the new turns appended. For the user whose stored history has six turns,
  a request appends two turns (the response shows all eight) and the stored history stays
  the six old turns; the last six entries of the appended sequence, which the claim asks
  for, are another list. (\<open>history_frozen_at_six\<close> below is the general statement.)
\<close>

theorem C1_persisted_history_keeps_head:
  "fst (generate_text test_env (Some (ascii ''my-secure-api-key''))
       \<lparr>user_id = Some (ascii ''user-001''), max_length = 100, mode = ascii ''general'',
        prompt = ascii ''P''\<rparr> test_world)
     = Generated \<lparr>r_input = ascii ''P'', r_output = VStr MODEL_UNAVAILABLE,
         r_history = six_turns @ [ascii ''User: P'', ascii ''AI: '' @ MODEL_UNAVAILABLE]\<rparr> \<and>
   stored (snd (generate_text test_env (Some (ascii ''my-secure-api-key''))
       \<lparr>user_id = Some (ascii ''user-001''), max_length = 100, mode = ascii ''general'',
        prompt = ascii ''P''\<rparr> test_world)) (ascii ''user-001'')
     = Some (JList [ascii ''User: a'', ascii ''AI: b'', ascii ''User: c'', ascii ''AI: d'',
                    ascii ''User: e'', ascii ''AI: f'']) \<and>
   slice_last 6 (six_turns @ [ascii ''User: P'', ascii ''AI: '' @ MODEL_UNAVAILABLE])
     = [ascii ''User: c'', ascii ''AI: d'', ascii ''User: e'', ascii ''AI: f'',
        ascii ''User: P'', ascii ''AI: '' @ MODEL_UNAVAILABLE]"
  by (simp add: eval_defs)

text \<open>
  Claim C6. A batch of two prompts for the user whose stored history has four turns: the
  history in the response and in the store is the first six entries of the snapshot
  followed by the \<open>User:\<close> turns and the \<open>AI:\<close> turns, so both \<open>AI:\<close> turns are lost;
  the last six entries, which the claim asks for, are another list. (That every prompt of a
  batch is generated with the snapshot as its history is \<open>batch_loop_snapshot\<close> below.)
\<close>

theorem C6_batch_history_keeps_head:
  "fst (generate_batch_text test_env (Some (ascii ''my-secure-api-key''))
       \<lparr>user_id = Some (ascii ''user-002''), max_length = 100, mode = ascii ''general'',
        prompts = [ascii ''P1'', ascii ''P2'']\<rparr> test_world)
     = BatchGenerated \<lparr>b_inputs = [ascii ''P1'', ascii ''P2''],
         b_outputs = [VStr MODEL_UNAVAILABLE, VStr MODEL_UNAVAILABLE],
         b_history = [ascii ''User: a'', ascii ''AI: b'', ascii ''User: c'', ascii ''AI: d'',
                      ascii ''User: P1'', ascii ''User: P2'']\<rparr> \<and>
   stored (snd (generate_batch_text test_env (Some (ascii ''my-secure-api-key''))
       \<lparr>user_id = Some (ascii ''user-002''), max_length = 100, mode = ascii ''general'',
        prompts = [ascii ''P1'', ascii ''P2'']\<rparr> test_world)) (ascii ''user-002'')
     = Some (JList [ascii ''User: a'', ascii ''AI: b'', ascii ''User: c'', ascii ''AI: d'',
                    ascii ''User: P1'', ascii ''User: P2'']) \<and>
   slice_last 6 ([ascii ''User: a'', ascii ''AI: b'', ascii ''User: c'', ascii ''AI: d'']
        @ [ascii ''User: P1'', ascii ''User: P2'']
        @ [ascii ''AI: '' @ MODEL_UNAVAILABLE, ascii ''AI: '' @ MODEL_UNAVAILABLE])
     = [ascii ''User: c'', ascii ''AI: d'', ascii ''User: P1'', ascii ''User: P2'',
        ascii ''AI: '' @ MODEL_UNAVAILABLE, ascii ''AI: '' @ MODEL_UNAVAILABLE]"
  by (simp add: eval_defs)

lemma generate_text_history_update:
  assumes "validate_api_key e api_key" and "mode body \<in> set VALID_MODES"
    and "redis_client w = Some store"
    and "\<not> truthy (store (get_redis_key (prompt body) (mode body) (max_length body)))"
    and "user_id body = Some uid" and "uid \<noteq> []"
    and "store uid = Some (JList h0)"
    and "uid \<noteq> get_redis_key (prompt body) (mode body) (max_length body)"
    and "0 < CACHE_TTL_SECONDS e"
  shows "\<exists>v. fst (generate_text e api_key body w) =
             Generated \<lparr>r_input = prompt body, r_output = v,
               r_history = slice_last 6 h0
                 @ [ascii ''User: '' @ prompt body, ascii ''AI: '' @ py_str v]\<rparr> \<and>
           stored (snd (generate_text e api_key body w)) uid =
             Some (JList (take 6 (slice_last 6 h0
                 @ [ascii ''User: '' @ prompt body, ascii ''AI: '' @ py_str v])))"
proof -
  let ?key = "get_redis_key (prompt body) (mode body) (max_length body)"
  let ?w1 = "w\<lparr>redis_log := redis_log w @ [GET ?key]\<rparr>"
  let ?w2 = "w\<lparr>redis_log := redis_log w @ [GET ?key, GET uid]\<rparr>"
  have c: "get_response_from_cache (prompt body) (mode body) (max_length body) w
      = (store ?key, ?w1)"
    by (simp add: get_response_from_cache_def assms(3) Let_def)
  have l: "load_history (Some uid) ?w1 = (Inr (slice_last 6 h0), ?w2)"
    by (simp add: load_history_def assms(3,6,7) truthy_str_def Let_def)
  obtain v w3 where g: "generate_response_with_cache (ai_core_generator e) (PStr (prompt body))
        (slice_last 6 h0) (max_length body) (mode body) ?w2 = (Inr v, w3)"
    and w3: "redis_client w3 = redis_client ?w2"
    using generate_response_with_cache_PStr by blast
  have w3': "redis_client w3 = Some store"
    using w3 by (simp add: assms(3))
  show ?thesis
    using assms(1,2,4,6,8,9) w3'
    by (simp add: generate_text_def c l g save_history_def set_response_to_cache_def Let_def
        stored_def slice_first_def assms(5) truthy_str_def)
qed

lemma history_frozen_at_six:
  assumes "validate_api_key e api_key" and "mode body \<in> set VALID_MODES"
    and "redis_client w = Some store"
    and "\<not> truthy (store (get_redis_key (prompt body) (mode body) (max_length body)))"
    and "user_id body = Some uid" and "uid \<noteq> []"
    and "store uid = Some (JList h0)" and "length h0 = 6"
    and "uid \<noteq> get_redis_key (prompt body) (mode body) (max_length body)"
    and "0 < CACHE_TTL_SECONDS e"
  shows "stored (snd (generate_text e api_key body w)) uid = Some (JList h0)"
  using generate_text_history_update [OF assms(1-7) assms(9) assms(10)] assms(8)
  by (auto simp: slice_last_def)

lemma save_history_persists:
  assumes "redis_client w = Some store" and "truthy_str uid"
  shows "stored (save_history uid new_history w) (the uid) = Some (JList (take 6 new_history))"
  using assms by (simp add: save_history_def stored_def slice_first_def)

lemma lru_touch_keys: "fst ` set (lru_touch k c) \<subseteq> fst ` set c"
proof (cases "map_of c k")
  case None
  then show ?thesis by (simp add: lru_touch_def)
next
  case (Some v)
  then have "(k, v) \<in> set c"
    by (rule map_of_SomeD)
  then have "k \<in> fst ` set c"
    by force
  then show ?thesis
    by (auto simp: lru_touch_def Some)
qed

lemma lru_put_keys: "fst ` set (lru_put n k v c) \<subseteq> insert k (fst ` set c)"
  by (auto simp: lru_put_def dest: in_set_butlastD)

lemma generate_response_keys:
  assumes "generate_response g (PStr p) h l m w = (r, w')"
  shows "fst ` set (core_cache w') \<subseteq> insert (p, h, l, m) (fst ` set (core_cache w))"
    and "app_cache w' = app_cache w" and "redis_client w' = redis_client w"
proof -
  let ?k = "(p, h, l, m)"
  have form: "core_cache w' = lru_touch ?k (core_cache w) \<or>
      (\<exists>v. core_cache w' = lru_put 128 ?k v (core_cache w))"
    and same: "app_cache w' = app_cache w" "redis_client w' = redis_client w"
    using assms
    by (auto simp: generate_response_def Let_def split: option.splits prod.splits)
  have touch: "fst ` set (lru_touch ?k (core_cache w)) \<subseteq> insert ?k (fst ` set (core_cache w))"
    using lru_touch_keys [of ?k "core_cache w"] by (simp add: subset_insertI2)
  have put: "fst ` set (lru_put 128 ?k v (core_cache w)) \<subseteq> insert ?k (fst ` set (core_cache w))"
    for v
    by (rule lru_put_keys)
  from form touch put
  show "fst ` set (core_cache w') \<subseteq> insert (p, h, l, m) (fst ` set (core_cache w))"
    by (elim disjE exE) simp_all
  from same show "app_cache w' = app_cache w" and "redis_client w' = redis_client w"
    by simp_all
qed

lemma generate_response_with_cache_keys:
  assumes "generate_response_with_cache g (PStr p) h l m w = (r, w')"
  shows "fst ` set (app_cache w') \<subseteq> insert (p, h, l, m) (fst ` set (app_cache w))"
    and "fst ` set (core_cache w') \<subseteq> insert (p, h, l, m) (fst ` set (core_cache w))"
    and "redis_client w' = redis_client w"
proof -
  let ?k = "(p, h, l, m)"
  obtain r1 w1 where g: "generate_response g (PStr p) h l m w = (r1, w1)"
    by (cases "generate_response g (PStr p) h l m w")
  note k = generate_response_keys [OF g]
  have form: "(app_cache w' = lru_touch ?k (app_cache w) \<and> core_cache w' = core_cache w \<and>
        redis_client w' = redis_client w) \<or>
      ((app_cache w' = app_cache w1 \<or> (\<exists>v. app_cache w' = lru_put 100 ?k v (app_cache w1))) \<and>
        core_cache w' = core_cache w1 \<and> redis_client w' = redis_client w1)"
    using assms g
    by (auto simp: generate_response_with_cache_def Let_def split: option.splits sum.splits)
  have touch: "fst ` set (lru_touch ?k (app_cache w)) \<subseteq> insert ?k (fst ` set (app_cache w))"
    using lru_touch_keys [of ?k "app_cache w"] by (simp add: subset_insertI2)
  have put: "fst ` set (lru_put 100 ?k v (app_cache w)) \<subseteq> insert ?k (fst ` set (app_cache w))"
    for v
    by (rule lru_put_keys)
  have keep: "fst ` set (app_cache w) \<subseteq> insert ?k (fst ` set (app_cache w))"
    "fst ` set (core_cache w) \<subseteq> insert ?k (fst ` set (core_cache w))"
    by (simp_all add: subset_insertI)
  from form touch put keep k
  show "fst ` set (app_cache w') \<subseteq> insert (p, h, l, m) (fst ` set (app_cache w))"
    by (elim disjE exE conjE) simp_all
  from form keep k
  show "fst ` set (core_cache w') \<subseteq> insert (p, h, l, m) (fst ` set (core_cache w))"
    by (elim disjE exE conjE) simp_all
  from form k show "redis_client w' = redis_client w"
    by (elim disjE exE conjE) simp_all
qed

text \<open>
  Every prompt of a batch is generated with the snapshot as its history: whatever the
  loop memoises has the snapshot in its key, and whatever it writes to the shared cache
  has the snapshot in its \<open>history\<close> field.
\<close>

lemma keys_step:
  assumes "A' \<subseteq> A3 \<union> f ` set ps" and "A3 \<subseteq> insert (f p) A"
  shows "A' \<subseteq> A \<union> f ` set (p # ps)"
  using assms by auto

lemma keys_stop:
  assumes "A' \<subseteq> insert (f p) A"
  shows "A' \<subseteq> A \<union> f ` set (p # ps)"
  using assms by auto

lemma stored_step:
  assumes "s' = s3 \<or> (\<exists>q out. q \<in> set ps \<and> key = K q \<and> s' = Some (D q out))"
    and "s3 = s \<or> (key = K p \<and> s3 = Some (D p o1))"
  shows "s' = s \<or> (\<exists>q out. q \<in> set (p # ps) \<and> key = K q \<and> s' = Some (D q out))"
  using assms by auto

lemma stored_stop:
  assumes "s' = s \<or> (key = K p \<and> s' = Some (D p o1))"
  shows "s' = s \<or> (\<exists>q out. q \<in> set (p # ps) \<and> key = K q \<and> s' = Some (D q out))"
  using assms by auto

lemma batch_loop_snapshot:
  assumes "batch_loop e ps h l m w = (r, w')"
  shows "fst ` set (app_cache w') \<subseteq> fst ` set (app_cache w) \<union> (\<lambda>p. (p, h, l, m)) ` set ps"
    and "fst ` set (core_cache w') \<subseteq> fst ` set (core_cache w) \<union> (\<lambda>p. (p, h, l, m)) ` set ps"
    and "stored w' key = stored w key \<or>
         (\<exists>p out. p \<in> set ps \<and> key = get_redis_key p m l \<and>
            stored w' key = Some (JDict \<lparr>r_input = p, r_output = out, r_history = h\<rparr>))"
proof -
  let ?f = "\<lambda>p. (p, h, l, m)"
  let ?K = "\<lambda>p. get_redis_key p m l"
  let ?D = "\<lambda>p out. JDict \<lparr>r_input = p, r_output = out, r_history = h\<rparr>"
  let ?goal = "\<lambda>ps w w'.
        fst ` set (app_cache w') \<subseteq> fst ` set (app_cache w) \<union> ?f ` set ps \<and>
        fst ` set (core_cache w') \<subseteq> fst ` set (core_cache w) \<union> ?f ` set ps \<and>
        (stored w' key = stored w key \<or>
         (\<exists>q out. q \<in> set ps \<and> key = ?K q \<and> stored w' key = Some (?D q out)))"
  have "?goal ps w w'"
    using assms
  proof (induction ps arbitrary: w r w')
    case Nil
    then show ?case by simp
  next
    case (Cons p ps)
    have step: "?goal (p # ps) w w'"
      if rest: "batch_loop e ps h l m w3 = (r3, w')"
        and a: "fst ` set (app_cache w3) \<subseteq> insert (?f p) (fst ` set (app_cache w))"
        and c: "fst ` set (core_cache w3) \<subseteq> insert (?f p) (fst ` set (core_cache w))"
        and s: "stored w3 key = stored w key \<or> (key = ?K p \<and> stored w3 key = Some (?D p o1))"
      for w3 r3 o1
    proof -
      from Cons.IH [OF rest]
      have ih: "fst ` set (app_cache w') \<subseteq> fst ` set (app_cache w3) \<union> ?f ` set ps"
        "fst ` set (core_cache w') \<subseteq> fst ` set (core_cache w3) \<union> ?f ` set ps"
        "stored w' key = stored w3 key \<or>
         (\<exists>q out. q \<in> set ps \<and> key = ?K q \<and> stored w' key = Some (?D q out))"
        by simp_all
      from keys_step [of _ _ ?f ps p, OF ih(1) a] keys_step [of _ _ ?f ps p, OF ih(2) c]
        stored_step [of "stored w' key" "stored w3 key" ps key ?K ?D "stored w key" p o1,
          OF ih(3) s]
      show ?thesis
        by (intro conjI)
    qed
    have stop: "?goal (p # ps) w w'"
      if a: "fst ` set (app_cache w') \<subseteq> insert (?f p) (fst ` set (app_cache w))"
        and c: "fst ` set (core_cache w') \<subseteq> insert (?f p) (fst ` set (core_cache w))"
        and s: "stored w' key = stored w key \<or> (key = ?K p \<and> stored w' key = Some (?D p o1))"
      for o1
      using keys_stop [of _ ?f p _ ps, OF a] keys_stop [of _ ?f p _ ps, OF c]
        stored_stop [of "stored w' key" "stored w key" key ?K p ?D o1 ps, OF s]
      by (intro conjI)
    obtain c w1 where c: "get_response_from_cache p m l w = (c, w1)"
      by (cases "get_response_from_cache p m l w")
    then have w1: "app_cache w1 = app_cache w" "core_cache w1 = core_cache w"
      "stored w1 key = stored w key"
      by (auto simp: get_response_from_cache_def stored_def Let_def split: option.splits)
    have keep1: "fst ` set (app_cache w1) \<subseteq> insert (?f p) (fst ` set (app_cache w))"
      "fst ` set (core_cache w1) \<subseteq> insert (?f p) (fst ` set (core_cache w))"
      by (simp_all add: w1 subset_insertI)
    show ?case
    proof (cases "truthy c")
      case True
      show ?thesis
      proof (cases "\<exists>d. c = Some (JDict d)")
        case True
        then obtain r1 where rest: "batch_loop e ps h l m w1 = (r1, w')"
          using Cons.prems c \<open>truthy c\<close> by (auto split: prod.splits sum.splits)
        show ?thesis
          using step [OF rest keep1, of "VStr []"] w1(3) by simp
      next
        case False
        then have "w' = w1"
          using Cons.prems c \<open>truthy c\<close>
          by (auto split: option.splits json.splits)
        then show ?thesis
          using stop [of "VStr []"] keep1 w1(3) by simp
      qed
    next
      case False
      obtain r2 w2 where g: "generate_response_with_cache (ai_core_generator e) (PStr p) h l m w1
          = (r2, w2)"
        by (cases "generate_response_with_cache (ai_core_generator e) (PStr p) h l m w1")
      note k = generate_response_with_cache_keys [OF g]
      have keep2: "fst ` set (app_cache w2) \<subseteq> insert (?f p) (fst ` set (app_cache w))"
        "fst ` set (core_cache w2) \<subseteq> insert (?f p) (fst ` set (core_cache w))"
        using k(1,2) by (simp_all add: w1)
      have w2: "stored w2 key = stored w key"
        using k(3) w1(3) by (simp add: stored_def)
      show ?thesis
      proof (cases r2)
        case (Inl ex)
        then have "w' = w2"
          using Cons.prems c False g by simp
        then show ?thesis
          using stop [of "VStr []"] keep2 w2 by simp
      next
        case (Inr out)
        obtain x w3 where s: "set_response_to_cache e p m l
            \<lparr>r_input = p, r_output = out, r_history = h\<rparr> w2 = (x, w3)"
          by (cases "set_response_to_cache e p m l
            \<lparr>r_input = p, r_output = out, r_history = h\<rparr> w2")
        then have w3: "app_cache w3 = app_cache w2" "core_cache w3 = core_cache w2"
          and st: "stored w3 key = stored w2 key \<or>
            (key = ?K p \<and> stored w3 key = Some (?D p out))"
          by (auto simp: set_response_to_cache_def stored_def Let_def
              split: option.splits if_splits)
        have keep3: "fst ` set (app_cache w3) \<subseteq> insert (?f p) (fst ` set (app_cache w))"
          "fst ` set (core_cache w3) \<subseteq> insert (?f p) (fst ` set (core_cache w))"
          using keep2 by (simp_all add: w3)
        have st3: "stored w3 key = stored w key \<or>
            (key = ?K p \<and> stored w3 key = Some (?D p out))"
          using st by (simp add: w2)
        show ?thesis
        proof (cases x)
          case (Some ex)
          then have "w' = w3"
            using Cons.prems c False g Inr s by (simp add: Let_def)
          then show ?thesis
            using stop [of out] keep3 st3 by simp
        next
          case None
          then obtain r3 where rest: "batch_loop e ps h l m w3 = (r3, w')"
            using Cons.prems c False g Inr s
            by (auto simp: Let_def split: prod.splits sum.splits)
          show ?thesis
            by (rule step [OF rest keep3 st3])
        qed
      qed
    qed
  qed
  then show "fst ` set (app_cache w') \<subseteq> fst ` set (app_cache w) \<union> (\<lambda>p. (p, h, l, m)) ` set ps"
    and "fst ` set (core_cache w') \<subseteq> fst ` set (core_cache w) \<union> (\<lambda>p. (p, h, l, m)) ` set ps"
    and "stored w' key = stored w key \<or>
         (\<exists>p out. p \<in> set ps \<and> key = get_redis_key p m l \<and>
            stored w' key = Some (JDict \<lparr>r_input = p, r_output = out, r_history = h\<rparr>))"
    by simp_all
qed

lemma generate_batch_text_history:
  assumes "validate_api_key e api_key" and "mode body \<in> set VALID_MODES"
    and "load_history (user_id body) w = (Inr h, w1)"
    and "batch_loop e (prompts body) h (max_length body) (mode body) w1 = (Inr outs, w2)"
  shows "fst (generate_batch_text e api_key body w) =
     BatchGenerated \<lparr>b_inputs = prompts body, b_outputs = outs,
       b_history = take 6 (h @ map (\<lambda>p. ascii ''User: '' @ p) (prompts body)
                            @ map (\<lambda>out. ascii ''AI: '' @ py_str out) outs)\<rparr>"
  using assms by (simp add: generate_batch_text_def Let_def slice_first_def)

end
